theory Spec2Isabelle
  imports Complex_Main "HOL-Library.Monad_Syntax" "HOL-Library.Log_Nat"
begin

section \<open>Parameter parsing\<close>

text \<open>
  The user hands the parser an object whose attributes are the parameters. Only the
  attribute dictionary matters to the code (\<^verbatim>\<open>hasattr\<close>, \<^verbatim>\<open>UP.__dict__\<close>), so an
  object is the finite map from attribute names to values. A value is a string, a
  number, a truth value, \<^verbatim>\<open>None\<close>, or some other object (a function, a descriptor of
  the class), of which only a name is kept.
\<close>

datatype pyval = PStr string | PNum real | PBool bool | PNone | PObject string

type_synonym pyobj = "string \<rightharpoonup> pyval"

datatype error =
    SystemExit string
  | ZeroDivisionError
  | AttributeError string
  | TypeError
  | OverflowError
  | ValueError
  | IndexError
  | ArrayError

datatype np_type = float64 | complex128 | float128 | complex256

text \<open>
  \<^verbatim>\<open>P.x = default; if hasattr(UP, 'x'): P.x = UP.x\<close>
\<close>

definition attr_or_default :: "pyobj \<Rightarrow> string \<Rightarrow> pyval \<Rightarrow> pyval" where
  "attr_or_default UP name dflt = (case UP name of Some v \<Rightarrow> v | None \<Rightarrow> dflt)"

subsection \<open>Precision and solver method\<close>

text \<open>
  Lines 52-61 of \<^verbatim>\<open>sbe/solver/params_parser.py\<close> and lines 185-194 of
  \<^verbatim>\<open>cued/utility/params_parser.py\<close> (the same chain; one calls \<^verbatim>\<open>quit\<close>, the other
  \<^verbatim>\<open>sys.exit\<close>, both with the message as argument). The result is the pair
  \<^verbatim>\<open>(type_real_np, type_complex_np)\<close>.
\<close>

definition derived_precision :: "pyval \<Rightarrow> pyval \<Rightarrow> error + (np_type \<times> np_type)" where
  "derived_precision precision solver_method =
     (if precision = PStr ''double'' then Inr (float64, complex128)
      else if precision = PStr ''quadruple'' then
        (if solver_method \<noteq> PStr ''rk4''
         then Inl (SystemExit ''Error: Quadruple precision only works with Runge-Kutta 4 ODE solver.'')
         else Inr (float128, complex256))
      else Inl (SystemExit ''Only default or quadruple precision available.''))"

text \<open>
  Lines 44-61 of \<^verbatim>\<open>parse_params\<close>: the two attributes are read with their defaults
  (\<^verbatim>\<open>'bdf'\<close>, \<^verbatim>\<open>'double'\<close>) and checked. Nothing before line 52 can fail, so an
  exit here is the result of the whole call.
\<close>

definition parse_params_precision :: "pyobj \<Rightarrow> error + (np_type \<times> np_type)" where
  "parse_params_precision UP =
     (let solver_method = attr_or_default UP ''solver_method'' (PStr ''bdf'');
          precision = attr_or_default UP ''precision'' (PStr ''double'')
      in derived_precision precision solver_method)"

subsection \<open>Number of time steps\<close>

text \<open>\<^verbatim>\<open>int(x)\<close> of a float truncates towards zero; \<^verbatim>\<open>modf(x)[0]\<close> is the
  fractional part, with the sign of \<^verbatim>\<open>x\<close>.\<close>

definition py_int :: "real \<Rightarrow> int" where
  "py_int x = (if 0 \<le> x then \<lfloor>x\<rfloor> else \<lceil>x\<rceil>)"

definition modf_frac :: "real \<Rightarrow> real" where
  "modf_frac x = x - of_int (py_int x)"

text \<open>
  The parameters \<^verbatim>\<open>t0\<close> and \<^verbatim>\<open>dt\<close> are Python floats: IEEE 754 binary64 numbers, and
  every operation on them gives the representable number nearest to the exact result,
  a tie going to the even significand. A finite float is a real number, so the
  arithmetic is modelled on the reals with the rounding written out.
  \<open>pow2 e\<close> is \<open>2\<close> to the power \<open>e\<close>; \<open>binary_exponent x\<close> is the \<open>e\<close> with
  \<open>2 ^ e \<le> |x| < 2 ^ (e + 1)\<close>; the doubles of that binade are the whole multiples of
  \<open>2 ^ (e - 52)\<close>, and below \<open>2 ^ (- 1022)\<close> (the subnormal range) of \<open>2 ^ (- 1074)\<close>. A
  result of magnitude \<open>2 ^ 1024\<close> or more is not a finite double (\<^verbatim>\<open>inf\<close>).
\<close>

definition pow2 :: "int \<Rightarrow> real" where
  "pow2 e = (if 0 \<le> e then 2 ^ nat e else 1 / 2 ^ nat (- e))"

definition round_half_even :: "real \<Rightarrow> int" where
  "round_half_even x =
     (let f = \<lfloor>x\<rfloor>; r = x - of_int f
      in if r < 1 / 2 then f else if 1 / 2 < r then f + 1 else if even f then f else f + 1)"

definition binary_exponent :: "real \<Rightarrow> int" where
  "binary_exponent x =
     (if 1 \<le> \<bar>x\<bar> then bitlen \<lfloor>\<bar>x\<bar>\<rfloor> - 1 else - bitlen (\<lceil>1 / \<bar>x\<bar>\<rceil> - 1))"

definition fl64 :: "real \<Rightarrow> real" where
  "fl64 x =
     (if x = 0 then 0
      else let ulp = pow2 (max (binary_exponent x) (- 1022) - 52)
           in of_int (round_half_even (x / ulp)) * ulp)"

definition overflow64 :: "real \<Rightarrow> bool" where
  "overflow64 x \<longleftrightarrow> 2 ^ 1024 \<le> \<bar>x\<bar>"

text \<open>
  \<^verbatim>\<open>
  Nf = int((abs(2*P.t0_fs))/P.dt_fs)
  if modf((2*P.t0_fs/P.dt_fs))[0] > 1e-12:
      print("WARNING: The time window divided by dt is not an integer.")
  P.Nt = Nf + 1
  \<close>
  The same four lines stand in \<^verbatim>\<open>sbe_solver_n_bands\<close> (46-51), in \<^verbatim>\<open>parse_params\<close>
  (110-115) and in \<^verbatim>\<open>ParamsParser.__append_derived_parameters\<close> (223-228). The result
  is the list of lines printed and \<^verbatim>\<open>Nt\<close>.

  The arguments are the two parameters as the user wrote them; the floats the code
  holds are \<open>fl64 t0_fs\<close> and \<open>fl64 dt_fs\<close>. Doubling and \<^verbatim>\<open>abs\<close> are exact, the two
  quotients are rounded, and \<^verbatim>\<open>int\<close> truncates the rounded quotient. A zero step
  raises \<^verbatim>\<open>ZeroDivisionError\<close> in the division. An infinite quotient makes \<^verbatim>\<open>int\<close> raise
  \<^verbatim>\<open>OverflowError\<close>. An infinite step gives the quotient \<^verbatim>\<open>0.0\<close>, or \<^verbatim>\<open>nan\<close> when the
  window is infinite too, and \<^verbatim>\<open>int(nan)\<close> raises \<^verbatim>\<open>ValueError\<close>. (In \<^verbatim>\<open>ParamsParser\<close> the
  step is a numpy float, and a zero step gives an infinite or undefined quotient, on
  which \<^verbatim>\<open>int\<close> raises; with precision \<^verbatim>\<open>quadruple\<close> the step has more digits. The
  definition is the double-precision arithmetic of the other two places.)
\<close>

definition time_window_warning :: string where
  "time_window_warning = ''WARNING: The time window divided by dt is not an integer.''"

definition derived_Nt :: "real \<Rightarrow> real \<Rightarrow> error + (string list \<times> int)" where
  "derived_Nt t0_fs dt_fs =
     (let t0 = fl64 t0_fs; dt = fl64 dt_fs
      in if dt = 0 then Inl ZeroDivisionError
         else if overflow64 dt
         then (if overflow64 (2 * t0) then Inl ValueError else Inr ([], 1))
         else if overflow64 (2 * t0) \<or> overflow64 (fl64 (\<bar>2 * t0\<bar> / dt)) then Inl OverflowError
         else
           let Nf = py_int (fl64 (\<bar>2 * t0\<bar> / dt));
               printed = (if modf_frac (fl64 (2 * t0 / dt)) > fl64 (1 / 10 ^ 12)
                          then [time_window_warning] else [])
           in Inr (printed, Nf + 1))"

subsection \<open>Unknown user parameters\<close>




section \<open>Arrays\<close>

text \<open>
  A one-dimensional numpy array is a list, a matrix a list of rows, a three-index
  tensor a list of matrices. Entries are exact complex (or real) numbers: rounding is
  not modelled. A numpy call that raises (an index out of range, shapes that do not
  fit) gives \<open>None\<close>.
\<close>

type_synonym cvec = "complex list"
type_synonym cmat = "complex list list"
type_synonym ctensor = "complex list list list"

definition nth_opt :: "'a list \<Rightarrow> nat \<Rightarrow> 'a option" where
  "nth_opt xs i = (if i < length xs then Some (xs ! i) else None)"

definition at2 :: "'a list list \<Rightarrow> nat \<Rightarrow> nat \<Rightarrow> 'a option" where
  "at2 A k m = do { row \<leftarrow> nth_opt A k; nth_opt row m }"

definition at3 :: "'a list list list \<Rightarrow> nat \<Rightarrow> nat \<Rightarrow> nat \<Rightarrow> 'a option" where
  "at3 T k i j = do { M \<leftarrow> nth_opt T k; row \<leftarrow> nth_opt M i; nth_opt row j }"

text \<open>\<^verbatim>\<open>xs[a:b]\<close> for \<open>0 \<le> a \<le> b\<close>: the slice is cut at the end of the array.\<close>

definition py_slice :: "nat \<Rightarrow> nat \<Rightarrow> 'a list \<Rightarrow> 'a list" where
  "py_slice a b xs = take (b - a) (drop a xs)"

text \<open>
  An elementwise operation on two one-dimensional arrays: the lengths are equal, or
  the array of length one is stretched (broadcasting); otherwise numpy raises.
\<close>

definition np_broadcast :: "('a \<Rightarrow> 'b \<Rightarrow> 'c) \<Rightarrow> 'a list \<Rightarrow> 'b list \<Rightarrow> 'c list option" where
  "np_broadcast f u v =
     (if length u = length v then Some (map2 f u v)
      else if length u = 1 then Some (map (f (hd u)) v)
      else if length v = 1 then Some (map (\<lambda>a. f a (hd v)) u)
      else None)"

text \<open>\<^verbatim>\<open>x[a:b] += v\<close>: \<open>v\<close> has the length of the slice, or length one.\<close>

definition slice_iadd :: "cvec \<Rightarrow> nat \<Rightarrow> nat \<Rightarrow> cvec \<Rightarrow> cvec option" where
  "slice_iadd x a b v =
     do {
       s \<leftarrow> np_broadcast (+) (py_slice a b x) v;
       if length s = length (py_slice a b x)
       then Some (take a x @ s @ drop (a + length s) x)
       else None
     }"

text \<open>\<^verbatim>\<open>np.dot(M, v)\<close> of a matrix and a vector: every row has the length of \<open>v\<close>.\<close>

definition np_dot :: "cmat \<Rightarrow> cvec \<Rightarrow> cvec option" where
  "np_dot M v =
     (if list_all (\<lambda>row. length row = length v) M
      then Some (map (\<lambda>row. sum_list (map2 (*) row v)) M)
      else None)"

definition mat_scale :: "complex \<Rightarrow> cmat \<Rightarrow> cmat" where
  "mat_scale c M = map (map ((*) c)) M"

text \<open>
  The sum of two matrices of one shape. (The solver only adds the tensors that
  \<^verbatim>\<open>rhs_of_sbe\<close> has built with one shape; what numpy does with two different shapes is
  not modelled: \<open>None\<close>.)
\<close>

definition mat_add :: "cmat \<Rightarrow> cmat \<Rightarrow> cmat option" where
  "mat_add A B =
     (if length A = length B \<and> list_all2 (\<lambda>r s. length r = length s) A B
      then Some (map2 (map2 (+)) A B)
      else None)"

definition zeros3 :: "nat \<Rightarrow> nat \<Rightarrow> nat \<Rightarrow> ctensor" where
  "zeros3 a b c = replicate a (replicate b (replicate c 0))"

text \<open>
  \<^verbatim>\<open>T[k, r, c] += v\<close> on a tensor made by \<^verbatim>\<open>np.zeros\<close>. The loops of \<^verbatim>\<open>rhs_of_sbe\<close>
  only write at \<open>k < Nk1\<close> and \<open>r, c < n^2\<close>, inside the shape they allocated.
\<close>

definition iadd3 :: "ctensor \<Rightarrow> nat \<Rightarrow> nat \<Rightarrow> nat \<Rightarrow> complex \<Rightarrow> ctensor" where
  "iadd3 T k r c v = T[k := (T ! k)[r := (T ! k ! r)[c := T ! k ! r ! c + v]]]"

text \<open>A loop whose body may raise: the first failure ends it.\<close>

fun fold_option :: "('a \<Rightarrow> 's \<Rightarrow> 's option) \<Rightarrow> 'a list \<Rightarrow> 's \<Rightarrow> 's option" where
  "fold_option f [] s = Some s"
| "fold_option f (a # as) s = (case f a s of None \<Rightarrow> None | Some s' \<Rightarrow> fold_option f as s')"

section \<open>The solver for n bands\<close>

text \<open>The fields of \<^verbatim>\<open>params\<close> that \<^verbatim>\<open>rhs_of_sbe\<close> and \<^verbatim>\<open>fnumba\<close> read, and the
  Brillouin-zone type, which they do not read.\<close>

record params =
  params_n :: nat
  params_Nk1 :: nat
  params_BZ_type :: string

type_synonym rhs_tensors = "ctensor \<times> ctensor \<times> ctensor \<times> ctensor"

subsection \<open>\<^verbatim>\<open>rhs_of_sbe\<close>\<close>

text \<open>
  The body of the innermost loop over \<open>j\<close> (lines 261-267). The energies
  \<^verbatim>\<open>e_in_path\<close> are real numbers (stored in a complex array by the caller), the
  dipole elements complex.
\<close>

definition rhs_of_sbe_j ::
  "nat \<Rightarrow> ctensor \<Rightarrow> real list list \<Rightarrow> real \<Rightarrow> real \<Rightarrow> nat \<Rightarrow> nat \<Rightarrow> nat \<Rightarrow> nat
     \<Rightarrow> rhs_tensors \<Rightarrow> rhs_tensors option" where
  "rhs_of_sbe_j n dipole_in_path e_in_path gamma1 gamma2 k m i j =
     (\<lambda>(rhs_dipole, rhs_e, rhs_gamma1, rhs_gamma2).
        do {
          d \<leftarrow> at3 dipole_in_path k i j;
          let rhs_dipole = iadd3 rhs_dipole k (m * n + i) (m * n + j) (- \<i> * d);
          if i = j then
            do {
              e_m \<leftarrow> at2 e_in_path k m;
              e_i \<leftarrow> at2 e_in_path k i;
              let rhs_e = iadd3 rhs_e k (m * n + i) (m * n + j) (- \<i> * of_real (e_m - e_i));
              if m = i
              then Some (rhs_dipole, rhs_e,
                         iadd3 rhs_gamma1 k (m * n + i) (m * n + j) (of_real (- gamma1)),
                         rhs_gamma2)
              else Some (rhs_dipole, rhs_e, rhs_gamma1,
                         iadd3 rhs_gamma2 k (m * n + i) (m * n + j) (of_real (- gamma2)))
            }
          else Some (rhs_dipole, rhs_e, rhs_gamma1, rhs_gamma2)
        })"

text \<open>The body of the second loop nest, over \<open>l\<close> and \<open>i\<close> (line 270).\<close>

definition rhs_of_sbe_li ::
  "nat \<Rightarrow> ctensor \<Rightarrow> nat \<Rightarrow> nat \<Rightarrow> nat \<Rightarrow> nat \<Rightarrow> rhs_tensors \<Rightarrow> rhs_tensors option" where
  "rhs_of_sbe_li n dipole_in_path k m l i =
     (\<lambda>(rhs_dipole, rhs_e, rhs_gamma1, rhs_gamma2).
        do {
          d \<leftarrow> at3 dipole_in_path k m l;
          Some (iadd3 rhs_dipole k (m * n + i) (l * n + i) (- (- \<i> * d)),
                rhs_e, rhs_gamma1, rhs_gamma2)
        })"

text \<open>The body of the loop over \<open>m\<close>: the two loop nests, one after the other.\<close>

definition rhs_of_sbe_m ::
  "nat \<Rightarrow> ctensor \<Rightarrow> real list list \<Rightarrow> real \<Rightarrow> real \<Rightarrow> nat \<Rightarrow> nat
     \<Rightarrow> rhs_tensors \<Rightarrow> rhs_tensors option" where
  "rhs_of_sbe_m n dipole_in_path e_in_path gamma1 gamma2 k m s =
     do {
       s \<leftarrow> fold_option
              (\<lambda>i. fold_option (rhs_of_sbe_j n dipole_in_path e_in_path gamma1 gamma2 k m i) [0..<n])
              [0..<n] s;
       fold_option (\<lambda>l. fold_option (rhs_of_sbe_li n dipole_in_path k m l) [0..<n]) [0..<n] s
     }"

definition rhs_of_sbe ::
  "params \<Rightarrow> ctensor \<Rightarrow> real list list \<Rightarrow> real \<Rightarrow> real \<Rightarrow> real \<Rightarrow> rhs_tensors option" where
  "rhs_of_sbe params dipole_in_path e_in_path dk gamma1 gamma2 =
     (let n = params_n params;
          Nk1 = params_Nk1 params;
          rhs_dipole = zeros3 Nk1 (n ^ 2) (n ^ 2);
          rhs_e = zeros3 Nk1 (n ^ 2) (n ^ 2);
          rhs_gamma1 = zeros3 Nk1 (n ^ 2) (n ^ 2);
          rhs_gamma2 = zeros3 Nk1 (n ^ 2) (n ^ 2);
          Nk_path = params_Nk1 params
      in fold_option
           (\<lambda>k. fold_option (rhs_of_sbe_m n dipole_in_path e_in_path gamma1 gamma2 k) [0..<n])
           [0..<Nk_path] (rhs_dipole, rhs_e, rhs_gamma1, rhs_gamma2))"

subsection \<open>\<^verbatim>\<open>fnumba\<close>\<close>

text \<open>The neighbour indices \<^verbatim>\<open>(i_k, j_k)\<close> of the k-point \<open>k\<close> (lines 294-302).\<close>

definition neighbours :: "nat \<Rightarrow> nat \<Rightarrow> nat \<times> nat" where
  "neighbours Nk1 k =
     (if k = 0 then (k + 1, Nk1 - 1)
      else if k = Nk1 - 1 then (0, k - 1)
      else (k + 1, k - 1))"

text \<open>
  One pass of the loop over \<open>k\<close> (lines 294-305): the three updates of the block
  \<^verbatim>\<open>x[k*n**2:(k+1)*n**2]\<close>.
\<close>

definition fnumba_k ::
  "nat \<Rightarrow> real \<Rightarrow> real \<Rightarrow> ctensor \<Rightarrow> ctensor \<Rightarrow> ctensor \<Rightarrow> ctensor \<Rightarrow> cvec \<Rightarrow> cvec \<Rightarrow> nat
     \<Rightarrow> nat \<Rightarrow> cvec \<Rightarrow> cvec option" where
  "fnumba_k n electric_f D rhs_dipole rhs_e rhs_gamma1 rhs_gamma2 y y0 Nk1 k x =
     (case neighbours Nk1 k of (i_k, j_k) \<Rightarrow>
        do {
          dip_k \<leftarrow> nth_opt rhs_dipole k;
          e_k \<leftarrow> nth_opt rhs_e k;
          gamma2_k \<leftarrow> nth_opt rhs_gamma2 k;
          M1 \<leftarrow> mat_add (mat_scale (of_real electric_f) dip_k) e_k;
          M \<leftarrow> mat_add M1 gamma2_k;
          v \<leftarrow> np_dot M (py_slice (k * n ^ 2) ((k + 1) * n ^ 2) y);
          x \<leftarrow> slice_iadd x (k * n ^ 2) ((k + 1) * n ^ 2) v;
          d \<leftarrow> np_broadcast (-) (py_slice (i_k * n ^ 2) ((i_k + 1) * n ^ 2) y)
                                (py_slice (j_k * n ^ 2) ((j_k + 1) * n ^ 2) y);
          x \<leftarrow> slice_iadd x (k * n ^ 2) ((k + 1) * n ^ 2) (map ((*) (of_real D)) d);
          gamma1_k \<leftarrow> nth_opt rhs_gamma1 k;
          dy \<leftarrow> np_broadcast (-) (py_slice (k * n ^ 2) ((k + 1) * n ^ 2) y)
                                 (py_slice (k * n ^ 2) ((k + 1) * n ^ 2) y0);
          w \<leftarrow> np_dot gamma1_k dy;
          slice_iadd x (k * n ^ 2) ((k + 1) * n ^ 2) w
        })"

text \<open>
  \<^verbatim>\<open>fnumba\<close>, with the \<open>n\<close> and the \<^verbatim>\<open>electric_field\<close> of the enclosing
  \<^verbatim>\<open>make_fnumba\<close> as its first arguments. The field function is not part of these
  sources and is a parameter. A step \<open>dk = 0\<close> leaves no number for \<open>D\<close>.
\<close>

definition fnumba ::
  "nat \<Rightarrow> (real \<Rightarrow> real) \<Rightarrow> real \<Rightarrow> cvec \<Rightarrow> ctensor \<Rightarrow> ctensor \<Rightarrow> ctensor \<Rightarrow> ctensor
     \<Rightarrow> cvec \<Rightarrow> params \<Rightarrow> real \<Rightarrow> cvec option" where
  "fnumba n electric_field t y rhs_dipole rhs_e rhs_gamma1 rhs_gamma2 y0 params dk =
     (let x = replicate (length y) 0;
          Nk1 = params_Nk1 params;
          electric_f = electric_field t
      in if dk = 0 then None
         else
           let D = electric_f / (2 * dk)
           in do {
                x \<leftarrow> fold_option
                       (fnumba_k n electric_f D rhs_dipole rhs_e rhs_gamma1 rhs_gamma2 y y0 Nk1)
                       [0..<Nk1] x;
                if x = [] then None
                else Some (x[length x - 1 := of_real (- electric_f)])
              })"

subsection \<open>\<^verbatim>\<open>initial_condition\<close>\<close>

definition np_diag :: "cvec \<Rightarrow> cmat" where
  "np_diag v = map (\<lambda>a. map (\<lambda>b. if a = b then v ! a else 0) [0..<length v]) [0..<length v]"

text \<open>
  \<^verbatim>\<open>e_in_path[:, 0]\<close> needs a column and \<^verbatim>\<open>e_in_path[0, :]\<close> a row. The array is
  rectangular and holds real band energies; the result is the flattened
  \<^verbatim>\<open>(num_kpoints, num_bands, num_bands)\<close> array.
\<close>

definition initial_condition :: "real \<Rightarrow> real \<Rightarrow> real list list \<Rightarrow> cvec option" where
  "initial_condition e_fermi temperature e_in_path =
     (if e_in_path = [] \<or> hd e_in_path = [] then None
      else
        let num_kpoints = length e_in_path;
            distrib_bands =
              (if temperature > 1 / 10 ^ 5
               then map (map (\<lambda>e. 1 / (exp ((e - e_fermi) / temperature) + 1))) e_in_path
               else map (map (\<lambda>e. if e_fermi - e > 0 then 1 else 0)) e_in_path)
        in Some (concat (map (\<lambda>k. concat (np_diag (map of_real (distrib_bands ! k))))
                             [0..<num_kpoints])))"

text \<open>Lines 182-183 of \<^verbatim>\<open>sbe_solver_n_bands\<close>: the vector potential, initially zero,
  is appended to the state.\<close>

definition solver_y0 :: "real \<Rightarrow> real \<Rightarrow> real list list \<Rightarrow> cvec option" where
  "solver_y0 e_fermi temperature e_in_path =
     do { y0 \<leftarrow> initial_condition e_fermi temperature e_in_path; Some (y0 @ [0]) }"

subsection \<open>The propagation loop\<close>

text \<open>
  The integrator (\<^verbatim>\<open>scipy.integrate.ode\<close> with \<^verbatim>\<open>zvode\<close>) is not part of the repository.
  The solver object is the record of what the loop reads: the time \<^verbatim>\<open>solver.t\<close>, the
  state \<^verbatim>\<open>solver.y\<close>, the flag \<^verbatim>\<open>solver.successful()\<close>, and the integrator's own work
  space, of which nothing is known. \<^verbatim>\<open>solver.integrate(t)\<close> is a parameter of the model:
  a function of the right-hand side, the solver object and the target time that
  returns the solver object after the call, or the exception it raises.
\<close>

record 'w ode =
  ode_work :: 'w
  ode_t :: real
  ode_y :: cvec
  ode_successful :: bool

type_synonym 'w integrator = "(real \<Rightarrow> cvec \<Rightarrow> cvec option) \<Rightarrow> 'w ode \<Rightarrow> real \<Rightarrow> error + 'w ode"

text \<open>
  Lines 192-214 of \<^verbatim>\<open>sbe_solver_n_bands\<close>, for the first path (\<^verbatim>\<open>t_constructed\<close> is
  false):
  \<^verbatim>\<open>
  ti = 0
  while solver.successful() and ti < Nt:
      if (ti % (Nt//20) == 0 and user_out):
          print('{:5.2f}%'.format(ti/Nt*100))
      solution[:, Nk2_idx, ti, :, :] = solver.y[:-1].reshape(Nk1, n, n)
      if not t_constructed:
          t[ti] = solver.t
          A_field[ti] = solver.y[-1].real
          E_field[ti] = electric_field(t[ti])
      solver.integrate(solver.t + dt)
      ti += 1
  \<close>
  The result is the list of the pairs \<^verbatim>\<open>(t[ti], solution[:, Nk2_idx, ti, :, :])\<close> in the
  order of \<^verbatim>\<open>ti\<close>, the density matrices flat as they stand in \<^verbatim>\<open>solver.y\<close>, or the
  exception that ends the loop. The remainder \<^verbatim>\<open>ti % (Nt//20)\<close> is taken before
  \<^verbatim>\<open>user_out\<close> is looked at, and raises \<^verbatim>\<open>ZeroDivisionError\<close> when \<^verbatim>\<open>Nt//20\<close> is zero;
  \<^verbatim>\<open>reshape\<close> raises \<^verbatim>\<open>ValueError\<close> when the state has not \<^verbatim>\<open>Nk1*n*n + 1\<close> entries;
  \<^verbatim>\<open>solver.y[-1]\<close> raises \<^verbatim>\<open>IndexError\<close> on an empty state. The target time
  \<^verbatim>\<open>solver.t + dt\<close> is a sum of floats.
\<close>

function propagate ::
  "'w integrator \<Rightarrow> (real \<Rightarrow> cvec \<Rightarrow> cvec option) \<Rightarrow> nat \<Rightarrow> nat \<Rightarrow> int \<Rightarrow> real \<Rightarrow> int \<Rightarrow> 'w ode
     \<Rightarrow> error + (real \<times> cvec) list" where
  "propagate integrate f Nk1 n Nt dt ti solver =
     (if ode_successful solver \<and> ti < Nt then
        if Nt div 20 = 0 then Inl ZeroDivisionError
        else if length (butlast (ode_y solver)) \<noteq> Nk1 * n * n then Inl ValueError
        else if ode_y solver = [] then Inl IndexError
        else
          (case integrate f solver (fl64 (ode_t solver + dt)) of
             Inl e \<Rightarrow> Inl e
           | Inr solver' \<Rightarrow>
               (case propagate integrate f Nk1 n Nt dt (ti + 1) solver' of
                  Inl e \<Rightarrow> Inl e
                | Inr rest \<Rightarrow> Inr ((ode_t solver, butlast (ode_y solver)) # rest)))
      else Inr [])"
  by pat_completeness auto
termination
  by (relation "measure (\<lambda>(integrate, f, Nk1, n, Nt, dt, ti, solver). nat (Nt - ti))") auto

declare propagate.simps [simp del]

text \<open>
  Lines 46-54 and 178-214 of \<^verbatim>\<open>sbe_solver_n_bands\<close> for the first path: the number of
  steps, the start time and the step in atomic units, the tensors, the initial state
  with the vector potential, \<^verbatim>\<open>set_initial_value\<close> (after which the solver counts as
  successful) and the loop. \<open>fs_to_au\<close> is the constant of \<^verbatim>\<open>conversion_factors\<close>, which
  is not among the source files; \<open>work\<close> is the integrator's work space at the start;
  the Fermi energy, the temperature, the damping rates, \<open>dk\<close> and the arrays of the
  path are the values lines 27-44, 86-99 and 142-174 computed. An exception of numpy
  while the tensors or the initial state are built (\<open>None\<close> in the definitions above)
  is \<open>ArrayError\<close> here.
\<close>

definition sbe_solver_path ::
  "real \<Rightarrow> 'w integrator \<Rightarrow> 'w \<Rightarrow> (real \<Rightarrow> real) \<Rightarrow> real \<Rightarrow> real \<Rightarrow> params \<Rightarrow> real \<Rightarrow> real
     \<Rightarrow> ctensor \<Rightarrow> real list list \<Rightarrow> real \<Rightarrow> real \<Rightarrow> real \<Rightarrow> error + (real \<times> cvec) list" where
  "sbe_solver_path fs_to_au integrate work electric_field e_fermi temperature params
                   params_t0 params_dt dipole_in_path e_in_path dk gamma1 gamma2 =
     (case derived_Nt params_t0 params_dt of
        Inl e \<Rightarrow> Inl e
      | Inr (printed, Nt) \<Rightarrow>
          let t0 = fl64 (fl64 params_t0 * fs_to_au);
              dt = fl64 (fl64 params_dt * fs_to_au)
          in case rhs_of_sbe params dipole_in_path e_in_path dk gamma1 gamma2 of
               None \<Rightarrow> Inl ArrayError
             | Some (rhs_dipole, rhs_e, rhs_gamma1, rhs_gamma2) \<Rightarrow>
                 (case solver_y0 e_fermi temperature e_in_path of
                    None \<Rightarrow> Inl ArrayError
                  | Some y0 \<Rightarrow>
                      propagate integrate
                        (\<lambda>t y. fnumba (params_n params) electric_field t y
                                  rhs_dipole rhs_e rhs_gamma1 rhs_gamma2 y0 params dk)
                        (params_Nk1 params) (params_n params) Nt dt 0
                        \<lparr>ode_work = work, ode_t = t0, ode_y = y0, ode_successful = True\<rparr>))"

text \<open>
  An integrator of this type, at which the statements about the loop are applied:
  one explicit Euler step from \<^verbatim>\<open>solver.t\<close> to the target time.
\<close>

definition euler :: "unit integrator" where
  "euler f solver target =
     (case f (ode_t solver) (ode_y solver) of
        None \<Rightarrow> Inl ArrayError
      | Some dy \<Rightarrow>
          Inr (solver\<lparr>ode_t := target,
                      ode_y := map2 (\<lambda>y d. y + of_real (target - ode_t solver) * d) (ode_y solver) dy,
                      ode_successful := True\<rparr>))"


definition keeps_stationary :: "'w integrator \<Rightarrow> (real \<Rightarrow> cvec \<Rightarrow> cvec option) \<Rightarrow> bool" where
  "keeps_stationary integrate f \<longleftrightarrow>
     (\<forall>solver target.
        (\<forall>t. f t (ode_y solver) = Some (replicate (length (ode_y solver)) 0)) \<longrightarrow>
        (\<exists>solver'. integrate f solver target = Inr solver'
           \<and> ode_t solver' = target \<and> ode_successful solver'
           \<and> ode_y solver' = ode_y solver))"

subsection \<open>Spectrum\<close>

text \<open>
  The transforms of \<^verbatim>\<open>numpy.fft\<close>, after their documentation: \<^verbatim>\<open>fft\<close> is the discrete
  Fourier transform \<open>A\<^sub>k = \<Sum>\<^sub>m a\<^sub>m exp (- 2 \<pi> \<i> m k / N)\<close>, \<^verbatim>\<open>fftshift\<close> rolls the array
  by \<open>N div 2\<close> places to the right and \<^verbatim>\<open>ifftshift\<close> by as many to the left,
  \<^verbatim>\<open>fftfreq(N, d)\<close> is \<open>[0, 1, ..., (N-1) div 2, -(N div 2), ..., -1] / (d N)\<close>.
\<close>

definition fft :: "cvec \<Rightarrow> cvec" where
  "fft a =
     (let N = length a
      in map (\<lambda>k. sum_list (map (\<lambda>m. a ! m * exp (- 2 * of_real pi * \<i> * of_nat m * of_nat k / of_nat N))
                                [0..<N]))
             [0..<N])"

definition fftshift :: "'a list \<Rightarrow> 'a list" where
  "fftshift x = rotate (length x - length x div 2) x"

definition ifftshift :: "'a list \<Rightarrow> 'a list" where
  "ifftshift x = rotate (length x div 2) x"

definition fftfreq :: "nat \<Rightarrow> real \<Rightarrow> real list" where
  "fftfreq N d =
     map (\<lambda>k. (if k < (N - 1) div 2 + 1 then real k else real k - real N) * (1 / (real N * d)))
         [0..<N]"

definition fourier :: "real \<Rightarrow> cvec \<Rightarrow> cvec" where
  "fourier dt data = map ((*) (of_real (dt / sqrt (2 * pi)))) (fftshift (fft (ifftshift data)))"

definition prefac_emission :: real where
  "prefac_emission = 1 / (3 * (137.036 ^ 3))"

text \<open>
  The part of \<^verbatim>\<open>write_current_emission\<close> that is always run, for one component of the
  current (lines 412-415 and 469-475): the frequencies, the spectrum and the
  intensity that are written to the file. Two time points are needed for
  \<^verbatim>\<open>t[1] - t[0]\<close>, and a spacing of zero leaves no frequencies.
\<close>

definition write_current_emission ::
  "real \<Rightarrow> real list \<Rightarrow> cvec \<Rightarrow> real list \<Rightarrow> (real list \<times> cvec \<times> real list) option" where
  "write_current_emission kweight t I_exact gaussian_envelope =
     (if length t < 2 then None
      else
        let dt_out = t ! 1 - t ! 0
        in if dt_out = 0 then None
           else
             let freq = fftshift (fftfreq (length t) dt_out);
                 I_exact = map ((*) (of_real kweight)) I_exact
             in do {
                  windowed \<leftarrow> np_broadcast (\<lambda>c g. c * of_real g) I_exact gaussian_envelope;
                  let Iw_exact = fourier dt_out windowed;
                  f2 \<leftarrow> Some (map (\<lambda>f. prefac_emission * f ^ 2) freq);
                  Int_exact \<leftarrow> np_broadcast (\<lambda>a s. a * (cmod s) ^ 2) f2 Iw_exact;
                  Some (freq, Iw_exact, Int_exact)
                })"

section \<open>Shapes, and the equation of motion entry by entry\<close>

text \<open>
  The statements below are about arrays of the shapes the solver builds: a square
  matrix of side \<open>m\<close>, a tensor of \<open>K\<close> such matrices, an array of \<open>K\<close> rows of
  \<open>n\<close> entries.
\<close>

definition wf_mat :: "nat \<Rightarrow> cmat \<Rightarrow> bool" where
  "wf_mat m M \<longleftrightarrow> length M = m \<and> list_all (\<lambda>row. length row = m) M"

definition wf_tensor :: "nat \<Rightarrow> nat \<Rightarrow> ctensor \<Rightarrow> bool" where
  "wf_tensor K m T \<longleftrightarrow> length T = K \<and> list_all (wf_mat m) T"

text \<open>
  The equation of motion as the specification writes it, for entry \<open>r\<close> of the block
  of k-point \<open>k\<close>:
  \<open>[E (dipole tensor) + energy tensor + coherence-decay tensor] y
     + (population-decay tensor) (y - y0) + D (y_next - y_prev)\<close>,
  where \<open>y_next\<close> and \<open>y_prev\<close> are the entries \<open>r\<close> of the two neighbouring blocks.
\<close>

definition sbe_rhs_entry ::
  "nat \<Rightarrow> real \<Rightarrow> real \<Rightarrow> ctensor \<Rightarrow> ctensor \<Rightarrow> ctensor \<Rightarrow> ctensor \<Rightarrow> cvec \<Rightarrow> cvec
     \<Rightarrow> nat \<Rightarrow> nat \<Rightarrow> complex \<Rightarrow> complex \<Rightarrow> complex" where
  "sbe_rhs_entry n electric_f D rhs_dipole rhs_e rhs_gamma1 rhs_gamma2 y y0 k r y_next y_prev =
     (\<Sum>c<n ^ 2. (of_real electric_f * rhs_dipole ! k ! r ! c + rhs_e ! k ! r ! c
                     + rhs_gamma2 ! k ! r ! c) * y ! (k * n ^ 2 + c))
     + (\<Sum>c<n ^ 2. rhs_gamma1 ! k ! r ! c * (y ! (k * n ^ 2 + c) - y0 ! (k * n ^ 2 + c)))
     + of_real D * (y_next - y_prev)"

text \<open>
  The same entry with the neighbours that \<^verbatim>\<open>fnumba\<close> reads. When \<open>i_k\<close> is not a
  k-point of the path, the slice \<^verbatim>\<open>y[i_k*n**2:(i_k+1)*n**2]\<close> holds the one entry at the
  end of the state, stretched over the block.
\<close>

definition fnumba_entry ::
  "nat \<Rightarrow> nat \<Rightarrow> real \<Rightarrow> real \<Rightarrow> ctensor \<Rightarrow> ctensor \<Rightarrow> ctensor \<Rightarrow> ctensor \<Rightarrow> cvec \<Rightarrow> cvec
     \<Rightarrow> nat \<Rightarrow> nat \<Rightarrow> complex" where
  "fnumba_entry n Nk1 electric_f D rhs_dipole rhs_e rhs_gamma1 rhs_gamma2 y y0 k r =
     (case neighbours Nk1 k of (i_k, j_k) \<Rightarrow>
        sbe_rhs_entry n electric_f D rhs_dipole rhs_e rhs_gamma1 rhs_gamma2 y y0 k r
          (y ! (if i_k < Nk1 then i_k * n ^ 2 + r else Nk1 * n ^ 2))
          (y ! (j_k * n ^ 2 + r)))"

definition wf_array2 :: "nat \<Rightarrow> nat \<Rightarrow> 'a list list \<Rightarrow> bool" where
  "wf_array2 K n A \<longleftrightarrow> length A = K \<and> list_all (\<lambda>row. length row = n) A"

text \<open>
  The loop bodies of \<^verbatim>\<open>rhs_of_sbe\<close> when every read is in range: the same updates,
  without the failure case.
\<close>

definition pure_j ::
  "nat \<Rightarrow> ctensor \<Rightarrow> real list list \<Rightarrow> real \<Rightarrow> real \<Rightarrow> nat \<Rightarrow> nat \<Rightarrow> nat \<Rightarrow> nat
     \<Rightarrow> rhs_tensors \<Rightarrow> rhs_tensors" where
  "pure_j n dipole_in_path e_in_path gamma1 gamma2 k m i j =
     (\<lambda>(rhs_dipole, rhs_e, rhs_gamma1, rhs_gamma2).
        (iadd3 rhs_dipole k (m * n + i) (m * n + j) (- \<i> * dipole_in_path ! k ! i ! j),
         (if i = j
          then iadd3 rhs_e k (m * n + i) (m * n + j)
                 (- \<i> * of_real (e_in_path ! k ! m - e_in_path ! k ! i))
          else rhs_e),
         (if i = j \<and> m = i
          then iadd3 rhs_gamma1 k (m * n + i) (m * n + j) (of_real (- gamma1))
          else rhs_gamma1),
         (if i = j \<and> m \<noteq> i
          then iadd3 rhs_gamma2 k (m * n + i) (m * n + j) (of_real (- gamma2))
          else rhs_gamma2)))"

definition pure_li :: "nat \<Rightarrow> ctensor \<Rightarrow> nat \<Rightarrow> nat \<Rightarrow> nat \<Rightarrow> nat \<Rightarrow> rhs_tensors \<Rightarrow> rhs_tensors" where
  "pure_li n dipole_in_path k m l i =
     (\<lambda>(rhs_dipole, rhs_e, rhs_gamma1, rhs_gamma2).
        (iadd3 rhs_dipole k (m * n + i) (l * n + i) (- (- \<i> * dipole_in_path ! k ! m ! l)),
         rhs_e, rhs_gamma1, rhs_gamma2))"

definition pure_m ::
  "nat \<Rightarrow> ctensor \<Rightarrow> real list list \<Rightarrow> real \<Rightarrow> real \<Rightarrow> nat \<Rightarrow> nat \<Rightarrow> rhs_tensors \<Rightarrow> rhs_tensors" where
  "pure_m n dipole_in_path e_in_path gamma1 gamma2 k m s =
     fold (\<lambda>l. fold (pure_li n dipole_in_path k m l) [0..<n]) [0..<n]
       (fold (\<lambda>i. fold (pure_j n dipole_in_path e_in_path gamma1 gamma2 k m i) [0..<n]) [0..<n] s)"

text \<open>A loop of updates that each add a contribution to every entry adds their sum.\<close>

definition adds :: "nat \<Rightarrow> nat \<Rightarrow> ('s \<Rightarrow> ctensor) \<Rightarrow> ('s \<Rightarrow> 's) \<Rightarrow> (nat \<Rightarrow> nat \<Rightarrow> nat \<Rightarrow> complex) \<Rightarrow> bool" where
  "adds K M P F \<delta> \<longleftrightarrow>
     (\<forall>s. wf_tensor K M (P s) \<longrightarrow>
        wf_tensor K M (P (F s))
        \<and> (\<forall>k<K. \<forall>r<M. \<forall>c<M. P (F s) ! k ! r ! c = P s ! k ! r ! c + \<delta> k r c))"

text \<open>What one pass \<open>(k, m, i, j)\<close> of the innermost loop adds to the entry
  \<open>(k', r', c')\<close> of a tensor that is written at \<open>(k, m n + i, m n + j)\<close> when \<open>i = j\<close>
  and \<open>G m i\<close>.\<close>

definition diag_delta ::
  "nat \<Rightarrow> (nat \<Rightarrow> nat \<Rightarrow> bool) \<Rightarrow> (nat \<Rightarrow> nat \<Rightarrow> nat \<Rightarrow> complex) \<Rightarrow> nat \<Rightarrow> nat \<Rightarrow> nat \<Rightarrow> nat
     \<Rightarrow> nat \<Rightarrow> nat \<Rightarrow> nat \<Rightarrow> complex" where
  "diag_delta n G v k m i j k' r' c' =
     (if k' = k \<and> r' = m * n + i \<and> c' = m * n + j then (if i = j \<and> G m i then v k m i else 0) else 0)"

text \<open>The equilibrium occupation of a band energy: Fermi-Dirac, or the step at
  temperatures up to the threshold of \<^verbatim>\<open>initial_condition\<close>.\<close>

definition occupation :: "real \<Rightarrow> real \<Rightarrow> real \<Rightarrow> real" where
  "occupation e_fermi temperature e =
     (if temperature > 1 / 10 ^ 5 then 1 / (exp ((e - e_fermi) / temperature) + 1)
      else if e < e_fermi then 1 else 0)"

section \<open>Properties of the parameter parser\<close>

lemma py_int_nonneg: "0 \<le> x \<Longrightarrow> py_int x = \<lfloor>x\<rfloor>"
  by (simp add: py_int_def)

subsection \<open>Rounding to the nearest double\<close>

lemma pow2_pos [simp]: "0 < pow2 e"
  by (simp add: pow2_def)

lemma pow2_Suc: "pow2 (e + 1) = 2 * pow2 e"
proof (cases "0 \<le> e")
  case True
  then have "nat (e + 1) = Suc (nat e)" by simp
  then show ?thesis using True by (simp add: pow2_def)
next
  case False
  then have "nat (- e) = Suc (nat (- (e + 1)))" by simp
  then show ?thesis using False by (auto simp: pow2_def)
qed

lemma binary_exponent_eq:
  assumes lo: "pow2 e \<le> \<bar>x\<bar>" and hi: "\<bar>x\<bar> < pow2 (e + 1)"
  shows "binary_exponent x = e"
proof (cases "0 \<le> e")
  case True
  define n where "n = \<lfloor>\<bar>x\<bar>\<rfloor>"
  have l: "2 ^ nat e \<le> \<bar>x\<bar>" using lo True by (simp add: pow2_def)
  have "(1::real) \<le> 2 ^ nat e" by (rule one_le_power) simp
  then have one: "1 \<le> \<bar>x\<bar>" using l by linarith
  have "of_int (2 ^ nat e) \<le> \<bar>x\<bar>" using lo True by (simp add: pow2_def)
  then have nlo: "2 ^ nat e \<le> n" unfolding n_def by (simp only: le_floor_iff)
  have "\<bar>x\<bar> < of_int (2 ^ nat (e + 1))" using hi True by (simp add: pow2_def)
  then have nhi: "n < 2 ^ nat (e + 1)" unfolding n_def by (simp only: floor_less_iff)
  have "bitlen n \<le> e + 1" using nhi True by (simp add: bitlen_le_iff_power)
  moreover have "e + 1 \<le> bitlen n"
  proof -
    have "nat (e + 1) - 1 = nat e" using True by simp
    then show ?thesis using nlo by (simp add: bitlen_ge_iff_power)
  qed
  ultimately have "bitlen n = e + 1" by simp
  then show ?thesis using one by (simp add: binary_exponent_def n_def)
next
  case False
  define k where "k = nat (- e)"
  have k: "0 < k" "e = - int k" using False by (simp_all add: k_def)
  have x0: "0 < \<bar>x\<bar>" using lo pow2_pos [of e] by linarith
  have lt1: "\<bar>x\<bar> < 1"
  proof -
    have "pow2 (e + 1) \<le> 1" using False by (auto simp: pow2_def)
    then show ?thesis using hi by simp
  qed
  define y where "y = 1 / \<bar>x\<bar>"
  define c where "c = \<lceil>y\<rceil> - 1"
  have p: "pow2 e = 1 / 2 ^ k" using False by (simp add: pow2_def k_def)
  have p1: "pow2 (e + 1) = 1 / 2 ^ (k - 1)"
  proof -
    have "pow2 (e + 1) = 2 * pow2 e" by (rule pow2_Suc)
    also have "\<dots> = 2 / 2 ^ k" by (simp add: p)
    also have "\<dots> = 1 / 2 ^ (k - 1)" using k(1) by (cases k) simp_all
    finally show ?thesis .
  qed
  have "y \<le> 2 ^ k"
    using lo x0 unfolding p y_def by (simp add: field_simps)
  then have "y \<le> of_int (2 ^ k)" by simp
  then have "\<lceil>y\<rceil> \<le> 2 ^ k" by (simp only: ceiling_le_iff)
  then have chi: "c < 2 ^ k" by (simp add: c_def)
  have "2 ^ (k - 1) < y"
    using hi x0 unfolding p1 y_def by (simp add: field_simps)
  then have "of_int (2 ^ (k - 1)) < y" by simp
  then have "2 ^ (k - 1) < \<lceil>y\<rceil>" by (simp only: less_ceiling_iff)
  then have clo: "2 ^ (k - 1) \<le> c" by (simp add: c_def)
  have "bitlen c \<le> int k" using chi by (simp add: bitlen_le_iff_power)
  moreover have "int k \<le> bitlen c" using clo by (simp add: bitlen_ge_iff_power)
  ultimately have "bitlen c = int k" by simp
  then show ?thesis using lt1 k by (simp add: binary_exponent_def c_def y_def)
qed

lemma round_half_even_cases: "round_half_even y = \<lfloor>y\<rfloor> \<or> round_half_even y = \<lfloor>y\<rfloor> + 1"
  by (simp add: round_half_even_def Let_def)

lemma round_half_even_ge: "of_int k \<le> y \<Longrightarrow> k \<le> round_half_even y"
proof -
  assume "of_int k \<le> y"
  then have "k \<le> \<lfloor>y\<rfloor>" by (simp only: le_floor_iff)
  then show ?thesis using round_half_even_cases [of y] by linarith
qed

lemma round_half_even_le: "y \<le> of_int k \<Longrightarrow> round_half_even y \<le> k"
proof (cases "y = of_int k")
  case True
  then show ?thesis by (simp add: round_half_even_def)
next
  case False
  assume "y \<le> of_int k"
  with False have "y < of_int k" by simp
  then have "\<lfloor>y\<rfloor> < k" by (simp only: floor_less_iff)
  then show ?thesis using round_half_even_cases [of y] by linarith
qed

lemma round_half_even_near:
  assumes "\<bar>y - of_int m\<bar> < 1 / 2"
  shows "round_half_even y = m"
proof (cases "of_int m \<le> y")
  case True
  then have f: "\<lfloor>y\<rfloor> = m" using assms by (intro floor_unique) linarith+
  have "y - of_int m < 1 / 2" using assms by linarith
  then show ?thesis by (simp add: round_half_even_def f Let_def)
next
  case False
  then have a: "of_int m - 1 / 2 < y" "y < of_int m" using assms by linarith+
  have b: "of_int (m - 1) = (of_int m :: real) - 1" by simp
  have f: "\<lfloor>y\<rfloor> = m - 1"
  proof (rule floor_unique)
    show "of_int (m - 1) \<le> y" unfolding b using a by linarith
    show "y < of_int (m - 1) + 1" unfolding b using a by linarith
  qed
  have c: "1 / 2 < y - of_int (m - 1)" unfolding b using a by linarith
  then have "\<not> y - of_int (m - 1) < 1 / 2" by linarith
  then show ?thesis using c unfolding round_half_even_def f Let_def by simp
qed

text \<open>
  The value of \<open>fl64\<close> at a given number is settled by naming the binade and the
  significand: \<open>m * 2 ^ (e - 52)\<close> is the double nearest to \<open>x\<close> when \<open>x\<close> lies in the
  binade of \<open>e\<close> and is less than half a unit in the last place away.
\<close>

lemma fl64_check:
  assumes lo: "pow2 e \<le> \<bar>x\<bar>" and hi: "\<bar>x\<bar> < pow2 (e + 1)" and e: "- 1022 \<le> e"
      and near: "\<bar>x - of_int m * pow2 (e - 52)\<bar> < pow2 (e - 53)"
  shows "fl64 x = of_int m * pow2 (e - 52)"
proof -
  have x0: "x \<noteq> 0"
  proof
    assume "x = 0"
    then have "pow2 e \<le> 0" using lo by simp
    then show False using pow2_pos [of e] by linarith
  qed
  have ex: "binary_exponent x = e" using lo hi by (rule binary_exponent_eq)
  define u where "u = pow2 (e - 52)"
  have u: "0 < u" by (simp add: u_def)
  have half: "pow2 (e - 53) = u / 2"
    using pow2_Suc [of "e - 53"] by (simp add: u_def)
  have "\<bar>x / u - of_int m\<bar> = \<bar>x - of_int m * u\<bar> / u"
    using u by (simp add: field_simps abs_divide)
  also have "\<dots> < (u / 2) / u"
    using near u unfolding half u_def [symmetric] by (intro divide_strict_right_mono) simp_all
  also have "\<dots> = 1 / 2" using u by simp
  finally have "round_half_even (x / u) = m" by (rule round_half_even_near)
  then show ?thesis
    using x0 e by (simp add: fl64_def ex u_def max_def)
qed

lemma fl64_unfold:
  "x \<noteq> 0 \<Longrightarrow> \<exists>u>0. fl64 x = of_int (round_half_even (x / u)) * u"
proof -
  assume "x \<noteq> 0"
  then have "fl64 x = of_int (round_half_even (x / pow2 (max (binary_exponent x) (- 1022) - 52)))
                      * pow2 (max (binary_exponent x) (- 1022) - 52)"
    by (simp add: fl64_def Let_def)
  then show ?thesis using pow2_pos by blast
qed

lemma fl64_nonneg: "0 \<le> x \<Longrightarrow> 0 \<le> fl64 x"
proof (cases "x = 0")
  case True
  then show ?thesis by (simp add: fl64_def)
next
  case False
  assume x: "0 \<le> x"
  from fl64_unfold [OF False] obtain u
    where u: "0 < u" "fl64 x = of_int (round_half_even (x / u)) * u" by blast
  have "of_int 0 \<le> x / u" using x u(1) by simp
  then have "0 \<le> round_half_even (x / u)" by (rule round_half_even_ge)
  then have "0 \<le> (of_int (round_half_even (x / u)) :: real)" by simp
  then show ?thesis unfolding u(2) using u(1) by (intro mult_nonneg_nonneg) simp_all
qed

lemma fl64_nonpos: "x \<le> 0 \<Longrightarrow> fl64 x \<le> 0"
proof (cases "x = 0")
  case True
  then show ?thesis by (simp add: fl64_def)
next
  case False
  assume x: "x \<le> 0"
  from fl64_unfold [OF False] obtain u
    where u: "0 < u" "fl64 x = of_int (round_half_even (x / u)) * u" by blast
  have "x / u \<le> of_int 0" using x u(1) by (simp add: divide_nonpos_pos)
  then have "round_half_even (x / u) \<le> 0" by (rule round_half_even_le)
  then have "(of_int (round_half_even (x / u)) :: real) \<le> 0" by simp
  then show ?thesis unfolding u(2) using u(1) by (intro mult_nonpos_nonneg) simp_all
qed




subsection \<open>The number of time steps\<close>

lemma modf_frac_nonpos: "x \<le> 0 \<Longrightarrow> modf_frac x \<le> 0"
  by (auto simp: modf_frac_def py_int_def)

text \<open>
  With a start time \<open>t0 \<le> 0\<close> and a step \<open>dt > 0\<close> the warning is never printed: the
  test looks at the fractional part of \<open>2 * t0 / dt\<close>, which is not positive.
\<close>

lemma no_warning_for_negative_start:
  assumes "t0 \<le> 0" "0 < dt" "derived_Nt t0 dt = Inr (printed, Nt)"
  shows "printed = []"
proof -
  have a: "fl64 t0 \<le> 0" using assms(1) by (rule fl64_nonpos)
  have d: "0 \<le> fl64 dt" using assms(2) by (intro fl64_nonneg) simp
  have "2 * fl64 t0 / fl64 dt \<le> 0"
    using a d by (intro divide_nonpos_nonneg) simp_all
  then have "fl64 (2 * fl64 t0 / fl64 dt) \<le> 0" by (rule fl64_nonpos)
  then have m: "modf_frac (fl64 (2 * fl64 t0 / fl64 dt)) \<le> 0" by (rule modf_frac_nonpos)
  have "0 \<le> fl64 (1 / 10 ^ 12)" by (intro fl64_nonneg) simp
  then have "\<not> modf_frac (fl64 (2 * fl64 t0 / fl64 dt)) > fl64 (1 / 10 ^ 12)"
    using m by linarith
  then show ?thesis
    using assms(3) by (auto simp: derived_Nt_def Let_def split: if_splits)
qed

lemma fl64_minus_500: "fl64 (- 500) = - 500"
  using fl64_check [of 8 "- 500" "- 500 * 2 ^ 44"] by (simp add: pow2_def)

lemma fl64_three_tenths: "fl64 (3 / 10) = 5404319552844595 / 18014398509481984"
  using fl64_check [of "- 2" "3 / 10" 5404319552844595] by (simp add: pow2_def)

lemma fl64_window_500_three_tenths:
  "fl64 (1000 / (5404319552844595 / 18014398509481984)) = 7330077518506667 / 2199023255552"
  using fl64_check [of 11 "1000 / (5404319552844595 / 18014398509481984)" 7330077518506667]
  by (simp add: pow2_def)

lemma derived_Nt_at_minus_500: "derived_Nt (- 500) (3 / 10) = Inr ([], 3334)"
proof -
  define d :: real where "d = 5404319552844595 / 18014398509481984"
  have q: "fl64 (\<bar>2 * (- 500)\<bar> / d) = 7330077518506667 / 2199023255552"
    using fl64_window_500_three_tenths by (simp add: d_def)
  have "fl64 (2 * (- 500) / d) \<le> 0" by (intro fl64_nonpos) (simp add: d_def)
  then have m: "modf_frac (fl64 (2 * (- 500) / d)) \<le> 0" by (rule modf_frac_nonpos)
  have "0 \<le> fl64 (1 / 10 ^ 12)" by (intro fl64_nonneg) simp
  then have np: "\<not> modf_frac (fl64 (2 * (- 500) / d)) > fl64 (1 / 10 ^ 12)"
    using m by linarith
  have d0: "d \<noteq> 0" "\<not> overflow64 d" "\<not> overflow64 (2 * (- 500))"
    by (simp_all add: d_def overflow64_def)
  have qo: "\<not> overflow64 (fl64 (\<bar>2 * (- 500)\<bar> / d))"
    unfolding q by (simp add: overflow64_def)
  have Nf: "py_int (fl64 (\<bar>2 * (- 500)\<bar> / d)) = 3333"
    unfolding q by (simp add: py_int_def)
  show ?thesis
    unfolding derived_Nt_def fl64_minus_500 fl64_three_tenths d_def [symmetric] Let_def
    using d0 qo np Nf by simp
qed

subsection \<open>The loop over the time steps\<close>

lemma propagate_invariant:
  assumes step: "\<And>solver target. I (ode_y solver) \<Longrightarrow> ode_successful solver \<Longrightarrow>
                   \<exists>solver'. integrate f solver target = Inr solver'
                     \<and> ode_t solver' = target \<and> ode_successful solver' \<and> I (ode_y solver')"
      and shape: "\<And>y. I y \<Longrightarrow> length y = Nk1 * n * n + 1"
      and Nt: "20 \<le> Nt"
      and s: "I (ode_y solver)" "ode_successful solver"
      and ti: "0 \<le> ti" "ti \<le> Nt"
  shows "\<exists>sol. propagate integrate f Nk1 n Nt dt ti solver = Inr sol
           \<and> length sol = nat (Nt - ti)
           \<and> (ti < Nt \<longrightarrow> fst (sol ! 0) = ode_t solver)
           \<and> (\<forall>i. Suc i < length sol \<longrightarrow> fst (sol ! Suc i) = fl64 (fst (sol ! i) + dt))
           \<and> (\<forall>p \<in> set sol. \<exists>y. I y \<and> snd p = butlast y)"
  using s ti
proof (induction "nat (Nt - ti)" arbitrary: ti solver)
  case 0
  then have "\<not> ti < Nt" by simp
  then have "propagate integrate f Nk1 n Nt dt ti solver = Inr []"
    by (subst propagate.simps) simp
  then show ?case using 0 by simp
next
  case (Suc k)
  then have lt: "ti < Nt" by linarith
  have d20: "Nt div 20 \<noteq> 0" using Nt by simp
  have len: "length (ode_y solver) = Nk1 * n * n + 1" using Suc.prems(1) by (rule shape)
  then have ne: "ode_y solver \<noteq> []" by auto
  have bl: "length (butlast (ode_y solver)) = Nk1 * n * n" using len by simp
  from step [OF Suc.prems(1,2), of "fl64 (ode_t solver + dt)"]
  obtain solver' where s': "integrate f solver (fl64 (ode_t solver + dt)) = Inr solver'"
    "ode_t solver' = fl64 (ode_t solver + dt)" "ode_successful solver'" "I (ode_y solver')"
    by blast
  have k: "k = nat (Nt - (ti + 1))" using Suc.hyps(2) by linarith
  from Suc.hyps(1) [OF k s'(4) s'(3)] Suc.prems(3) lt
  obtain rest where r: "propagate integrate f Nk1 n Nt dt (ti + 1) solver' = Inr rest"
    "length rest = nat (Nt - (ti + 1))"
    "ti + 1 < Nt \<longrightarrow> fst (rest ! 0) = ode_t solver'"
    "\<forall>i. Suc i < length rest \<longrightarrow> fst (rest ! Suc i) = fl64 (fst (rest ! i) + dt)"
    "\<forall>p \<in> set rest. \<exists>y. I y \<and> snd p = butlast y"
    by auto
  define sol where "sol = (ode_t solver, butlast (ode_y solver)) # rest"
  have run: "propagate integrate f Nk1 n Nt dt ti solver = Inr sol"
    using Suc.prems(2) lt d20 bl ne s'(1) r(1)
    by (subst propagate.simps) (simp add: sol_def)
  have l: "length sol = nat (Nt - ti)" using r(2) lt by (simp add: sol_def)
  have rec: "fst (sol ! Suc i) = fl64 (fst (sol ! i) + dt)" if "Suc i < length sol" for i
  proof (cases i)
    case 0
    then have "0 < length rest" using that by (simp add: sol_def)
    then have "ti + 1 < Nt" using r(2) by simp
    then have "fst (rest ! 0) = fl64 (ode_t solver + dt)" using r(3) s'(2) by simp
    then show ?thesis using 0 by (simp add: sol_def)
  next
    case (Suc j)
    then have "Suc j < length rest" using that by (simp add: sol_def)
    then show ?thesis using r(4) Suc by (simp add: sol_def)
  qed
  have inv: "\<forall>p \<in> set sol. \<exists>y. I y \<and> snd p = butlast y"
    using r(5) Suc.prems(1) by (auto simp: sol_def)
  show ?case using run l rec inv by (auto simp: sol_def)
qed

lemma derived_Nt_eval:
  assumes "fl64 t0_fs = a" "fl64 dt_fs = d" "d \<noteq> 0" "\<not> overflow64 d" "\<not> overflow64 (2 * a)"
      and "fl64 (\<bar>2 * a\<bar> / d) = q" "\<not> overflow64 q" "2 * a / d \<le> 0"
  shows "derived_Nt t0_fs dt_fs = Inr ([], py_int q + 1)"
proof -
  have "fl64 (2 * a / d) \<le> 0" using assms(8) by (rule fl64_nonpos)
  then have m: "modf_frac (fl64 (2 * a / d)) \<le> 0" by (rule modf_frac_nonpos)
  have "0 \<le> fl64 (1 / 10 ^ 12)" by (intro fl64_nonneg) simp
  then have "\<not> modf_frac (fl64 (2 * a / d)) > fl64 (1 / 10 ^ 12)" using m by linarith
  then show ?thesis
    unfolding derived_Nt_def assms(1,2) Let_def using assms(3-7) by simp
qed

lemma fl64_tenth: "fl64 (1 / 10) = 3602879701896397 / 36028797018963968"
  using fl64_check [of "- 4" "1 / 10" 7205759403792794] by (simp add: pow2_def)

lemma fl64_minus_half: "fl64 (- 1 / 2) = - 1 / 2"
  using fl64_check [of "- 1" "- 1 / 2" "- 4503599627370496"] by (simp add: pow2_def)

lemma fl64_half: "fl64 (1 / 2) = 1 / 2"
  using fl64_check [of "- 1" "1 / 2" 4503599627370496] by (simp add: pow2_def)



lemma fl64_minus_one: "fl64 (- 1) = - 1"
  using fl64_check [of 0 "- 1" "- 4503599627370496"] by (simp add: pow2_def)

lemma fl64_four: "fl64 4 = 4"
  using fl64_check [of 2 4 4503599627370496] by (simp add: pow2_def)




lemma fl64_window_half_tenth:
  "fl64 (1 / (3602879701896397 / 36028797018963968)) = 10"
  using fl64_check [of 3 "1 / (3602879701896397 / 36028797018963968)" 5629499534213120]
  by (simp add: pow2_def)


lemma derived_Nt_half_tenth: "derived_Nt (- 1 / 2) (1 / 10) = Inr ([], 11)"
  using derived_Nt_eval [OF fl64_minus_half fl64_tenth, of 10] fl64_window_half_tenth
  by (simp add: overflow64_def py_int_def)




lemma derived_Nt_short_window: "derived_Nt (- 1) (1 / 2) = Inr ([], 5)"
  using derived_Nt_eval [OF fl64_minus_one fl64_half, of 4] fl64_four
  by (simp add: overflow64_def py_int_def)


lemma euler_keeps_stationary: "keeps_stationary euler f"
proof -
  have "map2 (\<lambda>y d. y + c * d) ys (replicate (length ys) 0) = ys" for c :: complex and ys
    by (induction ys) simp_all
  then show ?thesis
    by (auto simp: keeps_stationary_def euler_def)
qed








text \<open>
  C7. The warning is meant for a time window \<open>2 * |t0|\<close> that is not a whole number of
  steps. The test takes the fractional part of \<open>2 * t0 / dt\<close>, without the absolute
  value that the step count uses; for the start time \<open>t0 = -500\<close> and the step
  \<open>dt = 0.3\<close> that fraction is negative, so nothing is printed, although the window is
  \<open>3333 + 1/3\<close> steps long. The step count is still returned: \<open>3334\<close>.
\<close>

theorem warning_missing_at_negative_start:
  "derived_Nt (-500) (3/10) = Inr ([], 3334)
   \<and> modf_frac (\<bar>2 * (-500)\<bar> / (3/10)) = 1/3
   \<and> modf_frac (2 * (-500) / (3/10)) = - 1/3"
  using derived_Nt_at_minus_500 by (simp add: py_int_def modf_frac_def)

text \<open>
  C8. With precision \<open>quadruple\<close> and a solver method other than \<open>rk4\<close> (also the
  default \<open>bdf\<close> of an object that sets none) parsing ends in the exit with the
  message about the Runge-Kutta solver; with precision \<open>double\<close> (also by default)
  every solver method passes the check.
\<close>

theorem quadruple_requires_rk4:
  "(UP ''precision'' = Some (PStr ''quadruple'') \<and> UP ''solver_method'' \<noteq> Some (PStr ''rk4'')
      \<longrightarrow> parse_params_precision UP =
            Inl (SystemExit ''Error: Quadruple precision only works with Runge-Kutta 4 ODE solver.''))
   \<and> (solver_method \<noteq> PStr ''rk4''
      \<longrightarrow> derived_precision (PStr ''quadruple'') solver_method =
            Inl (SystemExit ''Error: Quadruple precision only works with Runge-Kutta 4 ODE solver.''))
   \<and> (UP ''precision'' = Some (PStr ''double'') \<or> UP ''precision'' = None
      \<longrightarrow> parse_params_precision UP = Inr (float64, complex128))
   \<and> derived_precision (PStr ''double'') solver_method = Inr (float64, complex128)"
  by (auto simp: parse_params_precision_def derived_precision_def attr_or_default_def
           split: option.splits)

theorem quadruple_requires_rk4_witness:
  "parse_params_precision [''precision'' \<mapsto> PStr ''quadruple'', ''solver_method'' \<mapsto> PStr ''adams'']
     = Inl (SystemExit ''Error: Quadruple precision only works with Runge-Kutta 4 ODE solver.'')
   \<and> derived_precision (PStr ''quadruple'') (PStr ''bdf'')
     = Inl (SystemExit ''Error: Quadruple precision only works with Runge-Kutta 4 ODE solver.'')
   \<and> parse_params_precision [''precision'' \<mapsto> PStr ''double'', ''solver_method'' \<mapsto> PStr ''adams'']
     = Inr (float64, complex128)"
  using quadruple_requires_rk4 [of "[''precision'' \<mapsto> PStr ''quadruple'', ''solver_method'' \<mapsto> PStr ''adams'']" "PStr ''bdf''"]
        quadruple_requires_rk4 [of "[''precision'' \<mapsto> PStr ''double'', ''solver_method'' \<mapsto> PStr ''adams'']" "PStr ''bdf''"]
  by simp



section \<open>Properties of the arrays\<close>

lemma py_slice_length: "b \<le> length xs \<Longrightarrow> length (py_slice a b xs) = b - a"
  by (simp add: py_slice_def)

lemma py_slice_nth: "b \<le> length xs \<Longrightarrow> a + i < b \<Longrightarrow> py_slice a b xs ! i = xs ! (a + i)"
  by (simp add: py_slice_def)

lemma py_slice_block: "length A = a \<Longrightarrow> length B = L \<Longrightarrow> py_slice a (a + L) (A @ B @ R) = B"
  by (simp add: py_slice_def)

lemma np_broadcast_same:
  "length u = length v \<Longrightarrow> np_broadcast f u v = Some (map2 f u v)"
  by (simp add: np_broadcast_def)

lemma slice_iadd_block:
  "length A = a \<Longrightarrow> length B = L \<Longrightarrow> length v = L
     \<Longrightarrow> slice_iadd (A @ B @ R) a (a + L) v = Some (A @ map2 (+) B v @ R)"
  by (simp add: slice_iadd_def py_slice_block np_broadcast_same)

lemma map2_add_zeros: "length v = L \<Longrightarrow> map2 (+) (replicate L (0::complex)) v = v"
  by (simp add: list_eq_iff_nth_eq)

lemma sum_list_map2_sum:
  fixes row v :: "complex list"
  shows "length row = L \<Longrightarrow> length v = L
     \<Longrightarrow> sum_list (map2 (*) row v) = (\<Sum>c<L. row ! c * v ! c)"
  by (simp add: sum_list_sum_nth atLeast0LessThan)

lemma fold_option_snoc:
  "fold_option f (xs @ [a]) s = (case fold_option f xs s of None \<Rightarrow> None | Some s' \<Rightarrow> f a s')"
  by (induction xs arbitrary: s) (auto split: option.splits)

lemma concat_uniform_length:
  "\<forall>xs\<in>set xss. length xs = L \<Longrightarrow> length (concat xss) = length xss * L"
  by (induction xss) simp_all

lemma concat_uniform_nth:
  "\<forall>xs\<in>set xss. length xs = L \<Longrightarrow> i < length xss \<Longrightarrow> j < L
     \<Longrightarrow> concat xss ! (i * L + j) = xss ! i ! j"
proof (induction xss arbitrary: i)
  case Nil
  then show ?case by simp
next
  case (Cons xs xss)
  show ?case
  proof (cases i)
    case 0
    with Cons.prems show ?thesis by (simp add: nth_append)
  next
    case (Suc i')
    with Cons.prems have "concat xss ! (i' * L + j) = xss ! i' ! j"
      by (intro Cons.IH) simp_all
    moreover have "length xs = L" using Cons.prems by simp
    ultimately show ?thesis using Suc by (simp add: nth_append)
  qed
qed

lemma wf_tensor_nth: "wf_tensor K m T \<Longrightarrow> k < K \<Longrightarrow> nth_opt T k = Some (T ! k) \<and> wf_mat m (T ! k)"
  by (simp add: wf_tensor_def nth_opt_def list_all_length)

lemma wf_mat_row: "wf_mat m M \<Longrightarrow> r < m \<Longrightarrow> length (M ! r) = m"
  by (simp add: wf_mat_def list_all_length)

lemma wf_mat_length: "wf_mat m M \<Longrightarrow> length M = m"
  by (simp add: wf_mat_def)

lemma wf_mat_scale: "wf_mat m M \<Longrightarrow> wf_mat m (mat_scale c M)"
  by (simp add: wf_mat_def mat_scale_def list_all_length)

lemma mat_scale_nth: "wf_mat m M \<Longrightarrow> r < m \<Longrightarrow> c < m \<Longrightarrow> mat_scale a M ! r ! c = a * M ! r ! c"
  by (simp add: wf_mat_def mat_scale_def list_all_length)

lemma mat_add_wf:
  assumes "wf_mat m A" "wf_mat m B"
  shows "\<exists>M. mat_add A B = Some M \<and> wf_mat m M
             \<and> (\<forall>r<m. \<forall>c<m. M ! r ! c = A ! r ! c + B ! r ! c)"
proof -
  have "list_all2 (\<lambda>r s. length r = length s) A B"
    using assms by (simp add: wf_mat_def list_all2_conv_all_nth list_all_length)
  then have "mat_add A B = Some (map2 (map2 (+)) A B)"
    using assms by (simp add: mat_add_def wf_mat_def)
  moreover have "wf_mat m (map2 (map2 (+)) A B)"
    using assms by (simp add: wf_mat_def list_all_length)
  moreover have "\<forall>r<m. \<forall>c<m. map2 (map2 (+)) A B ! r ! c = A ! r ! c + B ! r ! c"
    using assms by (simp add: wf_mat_def list_all_length)
  ultimately show ?thesis by blast
qed

lemma np_dot_wf:
  assumes "wf_mat m M" "length v = m"
  shows "\<exists>w. np_dot M v = Some w \<and> length w = m
             \<and> (\<forall>r<m. w ! r = (\<Sum>c<m. M ! r ! c * v ! c))"
proof -
  have "np_dot M v = Some (map (\<lambda>row. sum_list (map2 (*) row v)) M)"
    using assms by (simp add: np_dot_def wf_mat_def)
  moreover have "\<forall>r<m. map (\<lambda>row. sum_list (map2 (*) row v)) M ! r = (\<Sum>c<m. M ! r ! c * v ! c)"
    using assms by (simp add: wf_mat_def list_all_length sum_list_map2_sum)
  ultimately show ?thesis using assms by (simp add: wf_mat_def)
qed

section \<open>The right-hand side \<^verbatim>\<open>fnumba\<close>\<close>

lemma neighbours_range:
  assumes "k < Nk1" "neighbours Nk1 k = (i_k, j_k)"
  shows "j_k < Nk1 \<and> (i_k < Nk1 \<or> (Nk1 = 1 \<and> k = 0 \<and> i_k = 1))"
  using assms by (auto simp: neighbours_def split: if_splits)

lemma neighbour_difference:
  assumes ly: "length y = Nk1 * m + 1" and k: "k < Nk1"
      and nb: "neighbours Nk1 k = (i_k, j_k)"
  shows "\<exists>d. np_broadcast (-) (py_slice (i_k * m) ((i_k + 1) * m) y)
                               (py_slice (j_k * m) ((j_k + 1) * m) y) = Some d
             \<and> length d = m
             \<and> (\<forall>r<m. d ! r = y ! (if i_k < Nk1 then i_k * m + r else Nk1 * m) - y ! (j_k * m + r))"
proof -
  define u where "u = py_slice (i_k * m) ((i_k + 1) * m) y"
  define v where "v = py_slice (j_k * m) ((j_k + 1) * m) y"
  from neighbours_range [OF k nb]
  have j: "j_k < Nk1" and i: "i_k < Nk1 \<or> (Nk1 = 1 \<and> k = 0 \<and> i_k = 1)" by simp_all
  from j have "Suc j_k \<le> Nk1" by simp
  then have "Suc j_k * m \<le> Nk1 * m" by (rule mult_le_mono1)
  then have jb: "(j_k + 1) * m \<le> length y" using ly by simp
  have lv: "length v = m" using jb by (simp add: v_def py_slice_def)
  have nv: "v ! r = y ! (j_k * m + r)" if "r < m" for r
    using that jb by (simp add: v_def py_slice_def)
  show ?thesis
  proof (cases "i_k < Nk1")
    case True
    then have "Suc i_k \<le> Nk1" by simp
    then have "Suc i_k * m \<le> Nk1 * m" by (rule mult_le_mono1)
    then have ib: "(i_k + 1) * m \<le> length y" using ly by simp
    have lu: "length u = m" using ib by (simp add: u_def py_slice_def)
    have nu: "u ! r = y ! (i_k * m + r)" if "r < m" for r
      using that ib by (simp add: u_def py_slice_def)
    have "np_broadcast (-) u v = Some (map2 (-) u v)"
      using lu lv by (simp add: np_broadcast_def)
    moreover have "length (map2 (-) u v) = m" using lu lv by simp
    moreover have "\<forall>r<m. map2 (-) u v ! r = y ! (i_k * m + r) - y ! (j_k * m + r)"
      using lu lv nu nv by simp
    ultimately show ?thesis using True unfolding u_def v_def by simp
  next
    case False
    with i have one: "Nk1 = 1" "i_k = 1" by simp_all
    have ly1: "length y = Suc m" using ly one by simp
    have dr: "drop m y = [y ! m]"
      using ly1 by (metis Cons_nth_drop_Suc drop_all lessI order_refl)
    show ?thesis
    proof (cases "m = 0")
      case True
      then show ?thesis using lv by (simp add: np_broadcast_def v_def py_slice_def)
    next
      case m0: False
      then have u1: "u = [y ! m]" using dr one by (simp add: u_def py_slice_def)
      show ?thesis
      proof (cases "m = 1")
        case True
        then have "np_broadcast (-) u v = Some (map2 (-) u v)"
          using u1 lv by (simp add: np_broadcast_def)
        moreover have "\<forall>r<m. map2 (-) u v ! r = y ! m - y ! (j_k * m + r)"
          using u1 lv nv True by simp
        moreover have "length (map2 (-) u v) = m" using u1 lv True by simp
        ultimately show ?thesis using False one unfolding u_def v_def by simp
      next
        case False
        then have "np_broadcast (-) u v = Some (map ((-) (y ! m)) v)"
          using u1 lv m0 by (simp add: np_broadcast_def)
        moreover have "\<forall>r<m. map ((-) (y ! m)) v ! r = y ! m - y ! (j_k * m + r)"
          using lv nv by simp
        moreover have "length (map ((-) (y ! m)) v) = m" using lv by simp
        ultimately show ?thesis using \<open>\<not> i_k < Nk1\<close> one unfolding u_def v_def by simp
      qed
    qed
  qed
qed

lemma fnumba_k_block:
  assumes rd: "wf_tensor Nk1 (n ^ 2) rhs_dipole" and re: "wf_tensor Nk1 (n ^ 2) rhs_e"
      and g1: "wf_tensor Nk1 (n ^ 2) rhs_gamma1" and g2: "wf_tensor Nk1 (n ^ 2) rhs_gamma2"
      and ly: "length y = Nk1 * n ^ 2 + 1" and ly0: "length y0 = Nk1 * n ^ 2 + 1"
      and k: "k < Nk1" and lA: "length A = k * n ^ 2"
      and nb: "neighbours Nk1 k = (i_k, j_k)"
  shows "\<exists>b. fnumba_k n electric_f D rhs_dipole rhs_e rhs_gamma1 rhs_gamma2 y y0 Nk1 k
                 (A @ replicate (n ^ 2) 0 @ R) = Some (A @ b @ R)
             \<and> length b = n ^ 2
             \<and> (\<forall>r<n ^ 2. b ! r =
                   sbe_rhs_entry n electric_f D rhs_dipole rhs_e rhs_gamma1 rhs_gamma2 y y0 k r
                     (y ! (if i_k < Nk1 then i_k * n ^ 2 + r else Nk1 * n ^ 2))
                     (y ! (j_k * n ^ 2 + r)))"
proof -
  define m where "m = n ^ 2"
  define yk where "yk = py_slice (k * m) ((k + 1) * m) y"
  define y0k where "y0k = py_slice (k * m) ((k + 1) * m) y0"
  have hi: "(k + 1) * m = k * m + m" by simp
  from k have "Suc k \<le> Nk1" by simp
  then have "Suc k * m \<le> Nk1 * m" by (rule mult_le_mono1)
  then have kb: "(k + 1) * m \<le> length y" "(k + 1) * m \<le> length y0"
    using ly ly0 by (simp_all add: m_def)
  have lyk: "length yk = m" and ly0k: "length y0k = m"
    using kb by (simp_all add: yk_def y0k_def py_slice_def)
  have nyk: "yk ! c = y ! (k * m + c)" and ny0k: "y0k ! c = y0 ! (k * m + c)" if "c < m" for c
    using that kb by (simp_all add: yk_def y0k_def py_slice_def)
  note t = wf_tensor_nth [OF rd k] wf_tensor_nth [OF re k] wf_tensor_nth [OF g1 k]
           wf_tensor_nth [OF g2 k]
  have wd: "wf_mat m (rhs_dipole ! k)" and we: "wf_mat m (rhs_e ! k)"
    and w1: "wf_mat m (rhs_gamma1 ! k)" and w2: "wf_mat m (rhs_gamma2 ! k)"
    using t by (simp_all add: m_def)
  obtain M1 where M1: "mat_add (mat_scale (of_real electric_f) (rhs_dipole ! k)) (rhs_e ! k) = Some M1"
      "wf_mat m M1"
      "\<forall>r<m. \<forall>c<m. M1 ! r ! c = mat_scale (of_real electric_f) (rhs_dipole ! k) ! r ! c + rhs_e ! k ! r ! c"
    using mat_add_wf [OF wf_mat_scale [OF wd] we] by blast
  obtain M where M: "mat_add M1 (rhs_gamma2 ! k) = Some M" "wf_mat m M"
      "\<forall>r<m. \<forall>c<m. M ! r ! c = M1 ! r ! c + rhs_gamma2 ! k ! r ! c"
    using mat_add_wf [OF M1(2) w2] by blast
  have Mrc: "M ! r ! c = of_real electric_f * rhs_dipole ! k ! r ! c + rhs_e ! k ! r ! c
                + rhs_gamma2 ! k ! r ! c" if "r < m" "c < m" for r c
    using that M(3) M1(3) mat_scale_nth [OF wd] by simp
  obtain v where v: "np_dot M yk = Some v" "length v = m" "\<forall>r<m. v ! r = (\<Sum>c<m. M ! r ! c * yk ! c)"
    using np_dot_wf [OF M(2) lyk] by blast
  obtain d where d: "np_broadcast (-) (py_slice (i_k * m) ((i_k + 1) * m) y)
                        (py_slice (j_k * m) ((j_k + 1) * m) y) = Some d"
      "length d = m"
      "\<forall>r<m. d ! r = y ! (if i_k < Nk1 then i_k * m + r else Nk1 * m) - y ! (j_k * m + r)"
    using neighbour_difference [OF _ k nb, of y m] ly by (auto simp: m_def)
  have dy: "np_broadcast (-) yk y0k = Some (map2 (-) yk y0k)"
    using lyk ly0k by (simp add: np_broadcast_def)
  obtain w where w: "np_dot (rhs_gamma1 ! k) (map2 (-) yk y0k) = Some w" "length w = m"
      "\<forall>r<m. w ! r = (\<Sum>c<m. rhs_gamma1 ! k ! r ! c * map2 (-) yk y0k ! c)"
    using np_dot_wf [OF w1, of "map2 (-) yk y0k"] lyk ly0k by auto
  define b where "b = map2 (+) (map2 (+) v (map ((*) (of_real D)) d)) w"
  have lA': "length A = k * m" using lA by (simp add: m_def)
  have s1: "slice_iadd (A @ replicate m 0 @ R) (k * m) ((k + 1) * m) v = Some (A @ v @ R)"
    unfolding hi
    using slice_iadd_block [OF lA' _ v(2), of "replicate m 0" R] v(2)
    by (simp add: map2_add_zeros)
  have s2: "slice_iadd (A @ v @ R) (k * m) ((k + 1) * m) (map ((*) (of_real D)) d)
              = Some (A @ map2 (+) v (map ((*) (of_real D)) d) @ R)"
    unfolding hi
    using slice_iadd_block [OF lA' v(2), of "map ((*) (of_real D)) d" R] d(2) by simp
  have s3: "slice_iadd (A @ map2 (+) v (map ((*) (of_real D)) d) @ R) (k * m) ((k + 1) * m) w
              = Some (A @ b @ R)"
    unfolding hi
    using slice_iadd_block [OF lA', of "map2 (+) v (map ((*) (of_real D)) d)" m w R] v(2) d(2) w(2)
    by (simp add: b_def)
  have run: "fnumba_k n electric_f D rhs_dipole rhs_e rhs_gamma1 rhs_gamma2 y y0 Nk1 k
               (A @ replicate m 0 @ R) = Some (A @ b @ R)"
    unfolding fnumba_k_def nb m_def [symmetric]
    using t M1(1) M(1) v(1) d(1) dy w(1) s1 s2 s3
    by (simp add: yk_def y0k_def)
  have lb: "length b = m" using v(2) d(2) w(2) by (simp add: b_def)
  have entries: "b ! r = sbe_rhs_entry n electric_f D rhs_dipole rhs_e rhs_gamma1 rhs_gamma2 y y0 k r
                     (y ! (if i_k < Nk1 then i_k * m + r else Nk1 * m)) (y ! (j_k * m + r))"
    if r: "r < m" for r
  proof -
    have "b ! r = v ! r + of_real D * d ! r + w ! r"
      using r v(2) d(2) w(2) by (simp add: b_def)
    moreover have "v ! r = (\<Sum>c<m. (of_real electric_f * rhs_dipole ! k ! r ! c + rhs_e ! k ! r ! c
                     + rhs_gamma2 ! k ! r ! c) * y ! (k * m + c))"
      using v(3) r Mrc [OF r] nyk by simp
    moreover have "w ! r = (\<Sum>c<m. rhs_gamma1 ! k ! r ! c * (y ! (k * m + c) - y0 ! (k * m + c)))"
      using w(3) r nyk ny0k lyk ly0k by simp
    ultimately show ?thesis
      using d(3) r by (simp add: sbe_rhs_entry_def m_def)
  qed
  show ?thesis using run lb entries unfolding m_def by blast
qed

lemma fnumba_loop:
  assumes rd: "wf_tensor Nk1 (n ^ 2) rhs_dipole" and re: "wf_tensor Nk1 (n ^ 2) rhs_e"
      and g1: "wf_tensor Nk1 (n ^ 2) rhs_gamma1" and g2: "wf_tensor Nk1 (n ^ 2) rhs_gamma2"
      and ly: "length y = Nk1 * n ^ 2 + 1" and ly0: "length y0 = Nk1 * n ^ 2 + 1"
  shows "K \<le> Nk1 \<Longrightarrow>
         \<exists>x. fold_option (fnumba_k n electric_f D rhs_dipole rhs_e rhs_gamma1 rhs_gamma2 y y0 Nk1)
                [0..<K] (replicate (length y) 0) = Some x
             \<and> length x = Nk1 * n ^ 2 + 1
             \<and> drop (K * n ^ 2) x = replicate ((Nk1 - K) * n ^ 2 + 1) 0
             \<and> (\<forall>k<K. \<forall>r<n ^ 2. x ! (k * n ^ 2 + r) =
                   fnumba_entry n Nk1 electric_f D rhs_dipole rhs_e rhs_gamma1 rhs_gamma2 y y0 k r)"
proof (induction K)
  case 0
  then show ?case using ly by simp
next
  case (Suc K)
  define m where "m = n ^ 2"
  from Suc.prems have K: "K < Nk1" by simp
  with Suc.IH obtain x where
    x: "fold_option (fnumba_k n electric_f D rhs_dipole rhs_e rhs_gamma1 rhs_gamma2 y y0 Nk1)
          [0..<K] (replicate (length y) 0) = Some x"
    and lx: "length x = Nk1 * m + 1"
    and dx: "drop (K * m) x = replicate ((Nk1 - K) * m + 1) 0"
    and ex: "\<forall>k<K. \<forall>r<m. x ! (k * m + r) =
               fnumba_entry n Nk1 electric_f D rhs_dipole rhs_e rhs_gamma1 rhs_gamma2 y y0 k r"
    unfolding m_def by auto
  define A where "A = take (K * m) x"
  define R where "R = replicate ((Nk1 - Suc K) * m + 1) (0::complex)"
  have "K \<le> Nk1" using K by simp
  then have "K * m \<le> Nk1 * m" by (rule mult_le_mono1)
  then have "K * m \<le> length x" using lx by linarith
  then have lA: "length A = K * m" by (simp add: A_def)
  have "Nk1 - K = Suc (Nk1 - Suc K)" using K by simp
  then have "(Nk1 - K) * m = m + (Nk1 - Suc K) * m" by (metis mult_Suc)
  then have "(Nk1 - K) * m + 1 = m + ((Nk1 - Suc K) * m + 1)" by simp
  then have "replicate ((Nk1 - K) * m + 1) (0::complex) = replicate m 0 @ R"
    unfolding R_def by (simp only: replicate_add)
  then have "drop (K * m) x = replicate m 0 @ R"
    using dx by simp
  then have xs: "x = A @ replicate m 0 @ R"
    unfolding A_def by (metis append_take_drop_id)
  obtain i_k j_k where nb: "neighbours Nk1 K = (i_k, j_k)" by (cases "neighbours Nk1 K")
  from fnumba_k_block [OF rd re g1 g2 ly ly0 K lA [unfolded m_def] nb, of electric_f D R]
  obtain b where
    b: "fnumba_k n electric_f D rhs_dipole rhs_e rhs_gamma1 rhs_gamma2 y y0 Nk1 K x = Some (A @ b @ R)"
    and lb: "length b = m"
    and eb: "\<forall>r<m. b ! r = fnumba_entry n Nk1 electric_f D rhs_dipole rhs_e rhs_gamma1 rhs_gamma2 y y0 K r"
    unfolding xs m_def fnumba_entry_def nb by auto
  have run: "fold_option (fnumba_k n electric_f D rhs_dipole rhs_e rhs_gamma1 rhs_gamma2 y y0 Nk1)
               [0..<Suc K] (replicate (length y) 0) = Some (A @ b @ R)"
    using x b by (simp add: fold_option_snoc)
  have len: "length (A @ b @ R) = Nk1 * m + 1"
  proof -
    have "length (A @ b @ R) = length (A @ replicate m 0 @ R)" using lb by simp
    then show ?thesis using xs lx by simp
  qed
  have dr: "drop (Suc K * m) (A @ b @ R) = R"
    using lA lb by simp
  have ent: "(A @ b @ R) ! (k * m + r) =
               fnumba_entry n Nk1 electric_f D rhs_dipole rhs_e rhs_gamma1 rhs_gamma2 y y0 k r"
    if k: "k < Suc K" and r: "r < m" for k r
  proof (cases "k < K")
    case True
    then have "Suc k \<le> K" by simp
    then have "Suc k * m \<le> K * m" by (rule mult_le_mono1)
    then have lt: "k * m + r < K * m" using r by simp
    then have "(A @ b @ R) ! (k * m + r) = A ! (k * m + r)" using lA by (simp add: nth_append)
    also have "\<dots> = x ! (k * m + r)" using lt by (simp add: A_def)
    finally show ?thesis using ex True r by simp
  next
    case False
    with k have "k = K" by simp
    then have "(A @ b @ R) ! (k * m + r) = b ! r" using lA lb r by (simp add: nth_append)
    then show ?thesis using eb r \<open>k = K\<close> by simp
  qed
  show ?case
    using run len dr ent unfolding m_def R_def by blast
qed

lemma fnumba_result:
  assumes rd: "wf_tensor (params_Nk1 params) (n ^ 2) rhs_dipole"
      and re: "wf_tensor (params_Nk1 params) (n ^ 2) rhs_e"
      and g1: "wf_tensor (params_Nk1 params) (n ^ 2) rhs_gamma1"
      and g2: "wf_tensor (params_Nk1 params) (n ^ 2) rhs_gamma2"
      and ly: "length y = params_Nk1 params * n ^ 2 + 1"
      and ly0: "length y0 = params_Nk1 params * n ^ 2 + 1"
      and dk: "dk \<noteq> 0"
  shows "\<exists>x. fnumba n electric_field t y rhs_dipole rhs_e rhs_gamma1 rhs_gamma2 y0 params dk = Some x
             \<and> length x = params_Nk1 params * n ^ 2 + 1
             \<and> x ! (params_Nk1 params * n ^ 2) = of_real (- electric_field t)
             \<and> (\<forall>k<params_Nk1 params. \<forall>r<n ^ 2. x ! (k * n ^ 2 + r) =
                   fnumba_entry n (params_Nk1 params) (electric_field t) (electric_field t / (2 * dk))
                     rhs_dipole rhs_e rhs_gamma1 rhs_gamma2 y y0 k r)"
proof -
  define Nk1 where "Nk1 = params_Nk1 params"
  define m where "m = n ^ 2"
  from fnumba_loop [OF rd re g1 g2 ly ly0 order_refl, of "electric_field t" "electric_field t / (2 * dk)"]
  obtain x where
    x: "fold_option (fnumba_k n (electric_field t) (electric_field t / (2 * dk))
           rhs_dipole rhs_e rhs_gamma1 rhs_gamma2 y y0 Nk1) [0..<Nk1] (replicate (length y) 0) = Some x"
    and lx: "length x = Nk1 * m + 1"
    and ex: "\<forall>k<Nk1. \<forall>r<m. x ! (k * m + r) =
               fnumba_entry n Nk1 (electric_field t) (electric_field t / (2 * dk))
                 rhs_dipole rhs_e rhs_gamma1 rhs_gamma2 y y0 k r"
    unfolding Nk1_def m_def by blast
  define x' where "x' = x[length x - 1 := of_real (- electric_field t)]"
  have ne: "x \<noteq> []" using lx by auto
  have run: "fnumba n electric_field t y rhs_dipole rhs_e rhs_gamma1 rhs_gamma2 y0 params dk = Some x'"
    using x ne dk by (simp add: fnumba_def Let_def Nk1_def x'_def)
  have "length x' = Nk1 * m + 1" using lx by (simp add: x'_def)
  moreover have "x' ! (Nk1 * m) = of_real (- electric_field t)"
    using lx by (simp add: x'_def)
  moreover have "x' ! (k * m + r) = x ! (k * m + r)" if "k < Nk1" "r < m" for k r
  proof -
    from that have "Suc k \<le> Nk1" by simp
    then have "Suc k * m \<le> Nk1 * m" by (rule mult_le_mono1)
    then have "k * m + r < Nk1 * m" using that by simp
    then show ?thesis using lx by (simp add: x'_def)
  qed
  ultimately show ?thesis
    using run ex unfolding Nk1_def m_def by auto
qed

section \<open>The tensors of \<^verbatim>\<open>rhs_of_sbe\<close>\<close>

lemma at3_wf:
  "wf_tensor K n T \<Longrightarrow> k < K \<Longrightarrow> i < n \<Longrightarrow> j < n \<Longrightarrow> at3 T k i j = Some (T ! k ! i ! j)"
  by (simp add: at3_def nth_opt_def wf_tensor_def wf_mat_def list_all_length)

lemma at2_wf:
  "wf_array2 K n A \<Longrightarrow> k < K \<Longrightarrow> m < n \<Longrightarrow> at2 A k m = Some (A ! k ! m)"
  by (simp add: at2_def nth_opt_def wf_array2_def list_all_length)

lemma rhs_of_sbe_j_pure:
  assumes "wf_tensor K n dipole_in_path" "wf_array2 K n e_in_path"
      and "k < K" "m < n" "i < n" "j < n"
  shows "rhs_of_sbe_j n dipole_in_path e_in_path gamma1 gamma2 k m i j s
           = Some (pure_j n dipole_in_path e_in_path gamma1 gamma2 k m i j s)"
  using assms
  by (cases s) (simp add: rhs_of_sbe_j_def pure_j_def at3_wf at2_wf Let_def)

lemma rhs_of_sbe_li_pure:
  assumes "wf_tensor K n dipole_in_path" "k < K" "m < n" "l < n"
  shows "rhs_of_sbe_li n dipole_in_path k m l i s = Some (pure_li n dipole_in_path k m l i s)"
  using assms by (cases s) (simp add: rhs_of_sbe_li_def pure_li_def at3_wf)

lemma fold_option_pure:
  "(\<And>a s. a \<in> set xs \<Longrightarrow> f a s = Some (g a s)) \<Longrightarrow> fold_option f xs s = Some (fold g xs s)"
  by (induction xs arbitrary: s) simp_all

lemma rhs_of_sbe_m_pure:
  assumes d: "wf_tensor K n dipole_in_path" and e: "wf_array2 K n e_in_path"
      and k: "k < K" and m: "m < n"
  shows "rhs_of_sbe_m n dipole_in_path e_in_path gamma1 gamma2 k m s
           = Some (pure_m n dipole_in_path e_in_path gamma1 gamma2 k m s)"
proof -
  have 1: "fold_option (\<lambda>i. fold_option (rhs_of_sbe_j n dipole_in_path e_in_path gamma1 gamma2 k m i) [0..<n])
             [0..<n] s
           = Some (fold (\<lambda>i. fold (pure_j n dipole_in_path e_in_path gamma1 gamma2 k m i) [0..<n]) [0..<n] s)"
    for s
    by (intro fold_option_pure) (simp_all add: rhs_of_sbe_j_pure [OF d e k m])
  have 2: "fold_option (\<lambda>l. fold_option (rhs_of_sbe_li n dipole_in_path k m l) [0..<n]) [0..<n] s
           = Some (fold (\<lambda>l. fold (pure_li n dipole_in_path k m l) [0..<n]) [0..<n] s)"
    for s
    by (intro fold_option_pure) (simp_all add: rhs_of_sbe_li_pure [OF d k m])
  show ?thesis by (simp add: rhs_of_sbe_m_def pure_m_def 1 2)
qed

lemma rhs_of_sbe_pure:
  assumes d: "wf_tensor (params_Nk1 params) (params_n params) dipole_in_path"
      and e: "wf_array2 (params_Nk1 params) (params_n params) e_in_path"
  shows "rhs_of_sbe params dipole_in_path e_in_path dk gamma1 gamma2
           = Some (fold (\<lambda>k. fold (pure_m (params_n params) dipole_in_path e_in_path gamma1 gamma2 k)
                                 [0..<params_n params])
                     [0..<params_Nk1 params]
                     (zeros3 (params_Nk1 params) (params_n params ^ 2) (params_n params ^ 2),
                      zeros3 (params_Nk1 params) (params_n params ^ 2) (params_n params ^ 2),
                      zeros3 (params_Nk1 params) (params_n params ^ 2) (params_n params ^ 2),
                      zeros3 (params_Nk1 params) (params_n params ^ 2) (params_n params ^ 2)))"
  unfolding rhs_of_sbe_def Let_def
  by (intro fold_option_pure) (simp_all add: rhs_of_sbe_m_pure [OF d e])

lemma list_all_update:
  assumes "list_all Q xs" "i < length xs \<Longrightarrow> Q x"
  shows "list_all Q (xs[i := x])"
proof (cases "i < length xs")
  case True
  then show ?thesis using assms by (simp add: list_all_length nth_list_update)
next
  case False
  then have "xs[i := x] = xs" by (simp add: list_update_beyond)
  then show ?thesis using assms(1) by (simp only:)
qed

lemma wf_mat_update:
  assumes "wf_mat M A"
  shows "wf_mat M (A[r := (A ! r)[c := v]])"
proof -
  have "list_all (\<lambda>row. length row = M) (A[r := (A ! r)[c := v]])"
    using assms by (intro list_all_update) (simp_all add: wf_mat_def list_all_length)
  then show ?thesis using assms by (simp add: wf_mat_def)
qed

lemma iadd3_wf:
  assumes "wf_tensor K M T"
  shows "wf_tensor K M (iadd3 T k r c v)"
proof -
  have "list_all (wf_mat M) (T[k := (T ! k)[r := (T ! k ! r)[c := T ! k ! r ! c + v]]])"
    using assms by (intro list_all_update) (simp_all add: wf_tensor_def list_all_length wf_mat_update)
  then show ?thesis using assms by (simp add: wf_tensor_def iadd3_def)
qed

lemma iadd3_nth:
  assumes "wf_tensor K M T" "k < K" "r < M" "c < M" "k' < K" "r' < M" "c' < M"
  shows "iadd3 T k r c v ! k' ! r' ! c'
           = T ! k' ! r' ! c' + (if k' = k \<and> r' = r \<and> c' = c then v else 0)"
  using assms
  by (auto simp: wf_tensor_def wf_mat_def iadd3_def list_all_length nth_list_update)

lemma zeros3_wf: "wf_tensor K M (zeros3 K M M)"
  by (simp add: wf_tensor_def wf_mat_def zeros3_def list_all_length)

lemma zeros3_nth: "k < K \<Longrightarrow> r < M \<Longrightarrow> c < M \<Longrightarrow> zeros3 K M M ! k ! r ! c = 0"
  by (simp add: zeros3_def)

lemma adds_fold:
  assumes "\<And>a. a < N \<Longrightarrow> adds K M P (F a) (\<delta> a)"
  shows "adds K M P (fold F [0..<N]) (\<lambda>k r c. \<Sum>a<N. \<delta> a k r c)"
  using assms
proof (induction N)
  case 0
  then show ?case by (simp add: adds_def)
next
  case (Suc N)
  then have IH: "adds K M P (fold F [0..<N]) (\<lambda>k r c. \<Sum>a<N. \<delta> a k r c)"
    and st: "adds K M P (F N) (\<delta> N)" by simp_all
  show ?case
    unfolding adds_def
  proof (intro allI impI)
    fix s assume wf: "wf_tensor K M (P s)"
    from IH wf have 1: "wf_tensor K M (P (fold F [0..<N] s))"
      and 2: "\<forall>k<K. \<forall>r<M. \<forall>c<M. P (fold F [0..<N] s) ! k ! r ! c = P s ! k ! r ! c + (\<Sum>a<N. \<delta> a k r c)"
      unfolding adds_def by blast+
    from st 1 have 3: "wf_tensor K M (P (F N (fold F [0..<N] s)))"
      and 4: "\<forall>k<K. \<forall>r<M. \<forall>c<M. P (F N (fold F [0..<N] s)) ! k ! r ! c
                 = P (fold F [0..<N] s) ! k ! r ! c + \<delta> N k r c"
      unfolding adds_def by blast+
    show "wf_tensor K M (P (fold F [0..<Suc N] s)) \<and>
          (\<forall>k<K. \<forall>r<M. \<forall>c<M. P (fold F [0..<Suc N] s) ! k ! r ! c
              = P s ! k ! r ! c + (\<Sum>a<Suc N. \<delta> a k r c))"
      using 2 3 4 by (simp add: add.assoc)
  qed
qed

lemma adds_comp:
  assumes "adds K M P F \<delta>" "adds K M P G \<epsilon>"
  shows "adds K M P (\<lambda>s. G (F s)) (\<lambda>k r c. \<delta> k r c + \<epsilon> k r c)"
  using assms unfolding adds_def by (auto simp: add.assoc)

lemma adds_same:
  assumes "\<And>s. P (F s) = P s"
  shows "adds K M P F (\<lambda>k r c. 0)"
  using assms by (simp add: adds_def)

lemma adds_iadd3:
  assumes "\<And>s. P (F s) = iadd3 (P s) k r c v" "k < K" "r < M" "c < M"
  shows "adds K M P F (\<lambda>k' r' c'. if k' = k \<and> r' = r \<and> c' = c then v else 0)"
  using assms by (simp add: adds_def iadd3_wf iadd3_nth)

lemma index_less_square: "m < n \<Longrightarrow> i < n \<Longrightarrow> m * n + i < n ^ 2" for m n i :: nat
proof -
  assume a: "m < n" "i < n"
  then have "Suc m \<le> n" by simp
  then have "Suc m * n \<le> n * n" by (rule mult_le_mono1)
  then show ?thesis using a by (simp add: power2_eq_square)
qed

lemma index_inj:
  "i < n \<Longrightarrow> i' < n \<Longrightarrow> m * n + i = m' * n + i' \<longleftrightarrow> m = m' \<and> i = i'" for m n i :: nat
proof
  assume a: "i < n" "i' < n" and e: "m * n + i = m' * n + i'"
  from e have "(m * n + i) div n = (m' * n + i') div n" by simp
  then have "m = m'" using a by simp
  with e show "m = m' \<and> i = i'" by simp
qed simp

lemma sum_single:
  fixes f :: "nat \<Rightarrow> complex"
  assumes "a < N" "\<And>x. x < N \<Longrightarrow> x \<noteq> a \<Longrightarrow> f x = 0"
  shows "(\<Sum>x<N. f x) = f a"
proof -
  have "(\<Sum>x<N. f x) = (\<Sum>x\<in>{..<N}. if x = a then f a else 0)"
    using assms(2) by (intro sum.cong) auto
  also have "\<dots> = f a" using assms(1) by (simp add: sum.delta)
  finally show ?thesis .
qed

lemma diag_delta_sum:
  assumes "k' < K" "m' < n" "i' < n" "m'' < n" "i'' < n"
  shows "(\<Sum>k<K. \<Sum>m<n. (\<Sum>i<n. \<Sum>j<n. diag_delta n G v k m i j k' (m' * n + i') (m'' * n + i'')))
           = (if m' = m'' \<and> i' = i'' \<and> G m' i' then v k' m' i' else 0)"
proof -
  define w where "w k m i j = (if i = j \<and> G m i then v k m i else 0)" for k m i j
  define dd where "dd k m i j = diag_delta n G v k m i j k' (m' * n + i') (m'' * n + i'')" for k m i j
  have d: "dd k m i j = (if k = k' \<and> m = m' \<and> i = i' \<and> m = m'' \<and> j = i'' then w k m i j else 0)"
    if "i < n" "j < n" for k m i j
    using that assms index_inj [of i' n i m' m] index_inj [of i'' n j m'' m]
    unfolding dd_def diag_delta_def w_def [symmetric] by auto
  have j: "(\<Sum>j<n. dd k m i j) = (if k = k' \<and> m = m' \<and> i = i' \<and> m = m'' then w k m i i'' else 0)"
    if "i < n" for k m i
  proof -
    have "(\<Sum>j<n. dd k m i j) = dd k m i i''"
      using assms that by (intro sum_single) (simp_all add: d)
    then show ?thesis using d [OF that assms(5)] by simp
  qed
  have i: "(\<Sum>i<n. \<Sum>j<n. dd k m i j) = (if k = k' \<and> m = m' \<and> m = m'' then w k m i' i'' else 0)"
    for k m
  proof -
    have "(\<Sum>i<n. \<Sum>j<n. dd k m i j) = (\<Sum>j<n. dd k m i' j)"
      using assms by (intro sum_single) (simp_all add: j)
    then show ?thesis using j [OF assms(3)] by simp
  qed
  have m: "(\<Sum>m<n. \<Sum>i<n. \<Sum>j<n. dd k m i j) = (if k = k' \<and> m' = m'' then w k m' i' i'' else 0)"
    for k
  proof -
    have "(\<Sum>m<n. \<Sum>i<n. \<Sum>j<n. dd k m i j) = (\<Sum>i<n. \<Sum>j<n. dd k m' i j)"
      using assms by (intro sum_single) (simp_all add: i)
    then show ?thesis using i by simp
  qed
  have "(\<Sum>k<K. \<Sum>m<n. \<Sum>i<n. \<Sum>j<n. dd k m i j) = (\<Sum>m<n. \<Sum>i<n. \<Sum>j<n. dd k' m i j)"
    using assms(1) by (intro sum_single) (simp_all add: m)
  then have "(\<Sum>k<K. \<Sum>m<n. \<Sum>i<n. \<Sum>j<n. dd k m i j) = (if m' = m'' then w k' m' i' i'' else 0)"
    using m by simp
  also have "\<dots> = (if m' = m'' \<and> i' = i'' \<and> G m' i' then v k' m' i' else 0)"
    by (auto simp: w_def)
  finally show ?thesis unfolding dd_def .
qed

lemma adds_pure_all:
  fixes P :: "rhs_tensors \<Rightarrow> ctensor"
  assumes Pj: "\<And>k m i j s. P (pure_j n dip e gamma1 gamma2 k m i j s)
                 = (if i = j \<and> G m i then iadd3 (P s) k (m * n + i) (m * n + j) (v k m i) else P s)"
      and Pli: "\<And>k m l i s. P (pure_li n dip k m l i s) = P s"
  shows "adds K (n ^ 2) P
           (fold (\<lambda>k. fold (pure_m n dip e gamma1 gamma2 k) [0..<n]) [0..<K])
           (\<lambda>k' r' c'. \<Sum>k<K. \<Sum>m<n. (\<Sum>i<n. \<Sum>j<n. diag_delta n G v k m i j k' r' c'))"
proof -
  have step_j: "adds K (n ^ 2) P (pure_j n dip e gamma1 gamma2 k m i j) (diag_delta n G v k m i j)"
    if "k < K" "m < n" "i < n" "j < n" for k m i j
  proof (cases "i = j \<and> G m i")
    case True
    then have ij: "i = j" and g: "G m i" by auto
    have P': "P (pure_j n dip e gamma1 gamma2 k m i j s) = iadd3 (P s) k (m * n + i) (m * n + j) (v k m i)"
      for s using Pj [of k m i j s] ij g by auto
    have "adds K (n ^ 2) P (pure_j n dip e gamma1 gamma2 k m i j)
            (\<lambda>k' r' c'. if k' = k \<and> r' = m * n + i \<and> c' = m * n + j then v k m i else 0)"
      using that by (intro adds_iadd3 P') (simp_all add: index_less_square)
    moreover have "diag_delta n G v k m i j
                     = (\<lambda>k' r' c'. if k' = k \<and> r' = m * n + i \<and> c' = m * n + j then v k m i else 0)"
      using True by (auto simp: diag_delta_def fun_eq_iff)
    ultimately show ?thesis by simp
  next
    case False
    from False have "P (pure_j n dip e gamma1 gamma2 k m i j s) = P s" for s
      using Pj [of k m i j s] by auto
    then have "adds K (n ^ 2) P (pure_j n dip e gamma1 gamma2 k m i j) (\<lambda>k' r' c'. 0)"
      by (intro adds_same)
    moreover have "diag_delta n G v k m i j = (\<lambda>k' r' c'. 0)"
      using False by (auto simp: diag_delta_def fun_eq_iff)
    ultimately show ?thesis by simp
  qed
  have nest1: "adds K (n ^ 2) P
                 (fold (\<lambda>i. fold (pure_j n dip e gamma1 gamma2 k m i) [0..<n]) [0..<n])
                 (\<lambda>k' r' c'. \<Sum>i<n. \<Sum>j<n. diag_delta n G v k m i j k' r' c')"
    if "k < K" "m < n" for k m
    by (intro adds_fold step_j that)
  have nest2: "adds K (n ^ 2) P (fold (\<lambda>l. fold (pure_li n dip k m l) [0..<n]) [0..<n]) (\<lambda>k' r' c'. 0)"
    for k m
  proof -
    have "P (fold (pure_li n dip k m l) xs s) = P s" for l xs s
      by (induction xs arbitrary: s) (simp_all add: Pli)
    then have "P (fold (\<lambda>l. fold (pure_li n dip k m l) [0..<n]) xs s) = P s" for xs s
      by (induction xs arbitrary: s) simp_all
    then show ?thesis by (intro adds_same)
  qed
  have level_m: "adds K (n ^ 2) P (pure_m n dip e gamma1 gamma2 k m)
                   (\<lambda>k' r' c'. (\<Sum>i<n. \<Sum>j<n. diag_delta n G v k m i j k' r' c'))"
    if "k < K" "m < n" for k m
    using adds_comp [OF nest1 [OF that] nest2 [of k m]]
    by (simp add: pure_m_def [abs_def])
  show ?thesis
    by (intro adds_fold level_m)
qed

lemma fold_invariant:
  "(\<And>a s. Q s \<Longrightarrow> Q (F a s)) \<Longrightarrow> Q s \<Longrightarrow> Q (fold F xs s)"
  by (induction xs arbitrary: s) simp_all

lemma pure_all_dipole_wf:
  assumes "wf_tensor K M (fst s)"
  shows "wf_tensor K M (fst (fold (\<lambda>k. fold (pure_m n dip e gamma1 gamma2 k) [0..<n]) [0..<K] s))"
proof -
  have j: "wf_tensor K M (fst (pure_j n dip e gamma1 gamma2 k m i j s))"
    if "wf_tensor K M (fst s)" for k m i j s
    using that by (cases s) (simp add: pure_j_def iadd3_wf)
  have li: "wf_tensor K M (fst (pure_li n dip k m l i s))"
    if "wf_tensor K M (fst s)" for k m l i s
    using that by (cases s) (simp add: pure_li_def iadd3_wf)
  have m: "wf_tensor K M (fst (pure_m n dip e gamma1 gamma2 k m s))"
    if "wf_tensor K M (fst s)" for k m s
    unfolding pure_m_def
    by (intro fold_invariant [where Q = "\<lambda>s. wf_tensor K M (fst s)"] j li that)
  show ?thesis
    by (intro fold_invariant [where Q = "\<lambda>s. wf_tensor K M (fst s)"] m assms)
qed

lemma adds_apply:
  assumes "adds K M P F \<delta>" "wf_tensor K M (P s)"
  shows "wf_tensor K M (P (F s))"
    and "k < K \<Longrightarrow> r < M \<Longrightarrow> c < M \<Longrightarrow> P (F s) ! k ! r ! c = P s ! k ! r ! c + \<delta> k r c"
  using assms unfolding adds_def by blast+

lemma rhs_of_sbe_result:
  assumes d: "wf_tensor (params_Nk1 params) (params_n params) dipole_in_path"
      and e: "wf_array2 (params_Nk1 params) (params_n params) e_in_path"
  shows "\<exists>rhs_dipole rhs_e rhs_gamma1 rhs_gamma2.
           rhs_of_sbe params dipole_in_path e_in_path dk gamma1 gamma2
             = Some (rhs_dipole, rhs_e, rhs_gamma1, rhs_gamma2)
           \<and> wf_tensor (params_Nk1 params) (params_n params ^ 2) rhs_dipole
           \<and> wf_tensor (params_Nk1 params) (params_n params ^ 2) rhs_e
           \<and> wf_tensor (params_Nk1 params) (params_n params ^ 2) rhs_gamma1
           \<and> wf_tensor (params_Nk1 params) (params_n params ^ 2) rhs_gamma2
           \<and> (\<forall>k<params_Nk1 params. \<forall>m<params_n params. \<forall>i<params_n params.
                \<forall>m'<params_n params. \<forall>i'<params_n params.
                  rhs_e ! k ! (m * params_n params + i) ! (m' * params_n params + i')
                    = (if m = m' \<and> i = i'
                       then - \<i> * of_real (e_in_path ! k ! m - e_in_path ! k ! i) else 0)
                  \<and> rhs_gamma1 ! k ! (m * params_n params + i) ! (m' * params_n params + i')
                    = (if m = m' \<and> i = i' \<and> m = i then of_real (- gamma1) else 0)
                  \<and> rhs_gamma2 ! k ! (m * params_n params + i) ! (m' * params_n params + i')
                    = (if m = m' \<and> i = i' \<and> m \<noteq> i then of_real (- gamma2) else 0))"
proof -
  define K where "K = params_Nk1 params"
  define n where "n = params_n params"
  define z where "z = zeros3 K (n ^ 2) (n ^ 2)"
  define s where "s = fold (\<lambda>k. fold (pure_m n dipole_in_path e_in_path gamma1 gamma2 k) [0..<n]) [0..<K] (z, z, z, z)"
  define Pe :: "rhs_tensors \<Rightarrow> ctensor" where "Pe = (\<lambda>(rd, re, g1, g2). re)"
  define P1 :: "rhs_tensors \<Rightarrow> ctensor" where "P1 = (\<lambda>(rd, re, g1, g2). g1)"
  define P2 :: "rhs_tensors \<Rightarrow> ctensor" where "P2 = (\<lambda>(rd, re, g1, g2). g2)"
  have run: "rhs_of_sbe params dipole_in_path e_in_path dk gamma1 gamma2 = Some s"
    using rhs_of_sbe_pure [OF d e] by (simp add: s_def z_def K_def n_def)
  have wz: "wf_tensor K (n ^ 2) z" by (simp add: z_def zeros3_wf)
  have zn: "z ! k ! r ! c = 0" if "k < K" "r < n ^ 2" "c < n ^ 2" for k r c
    using that by (simp add: z_def zeros3_nth)
  have wd: "wf_tensor K (n ^ 2) (fst s)"
    unfolding s_def by (intro pure_all_dipole_wf) (simp add: wz)
  have ae: "adds K (n ^ 2) Pe
              (fold (\<lambda>k. fold (pure_m n dipole_in_path e_in_path gamma1 gamma2 k) [0..<n]) [0..<K])
              (\<lambda>k' r' c'. \<Sum>k<K. \<Sum>m<n. (\<Sum>i<n. \<Sum>j<n.
                  diag_delta n (\<lambda>m i. True)
                    (\<lambda>k m i. - \<i> * of_real (e_in_path ! k ! m - e_in_path ! k ! i)) k m i j k' r' c'))"
    by (intro adds_pure_all) (auto simp: Pe_def pure_j_def pure_li_def)
  have a1: "adds K (n ^ 2) P1
              (fold (\<lambda>k. fold (pure_m n dipole_in_path e_in_path gamma1 gamma2 k) [0..<n]) [0..<K])
              (\<lambda>k' r' c'. \<Sum>k<K. \<Sum>m<n. (\<Sum>i<n. \<Sum>j<n.
                  diag_delta n (\<lambda>m i. m = i) (\<lambda>k m i. of_real (- gamma1)) k m i j k' r' c'))"
    by (intro adds_pure_all) (auto simp: P1_def pure_j_def pure_li_def)
  have a2: "adds K (n ^ 2) P2
              (fold (\<lambda>k. fold (pure_m n dipole_in_path e_in_path gamma1 gamma2 k) [0..<n]) [0..<K])
              (\<lambda>k' r' c'. \<Sum>k<K. \<Sum>m<n. (\<Sum>i<n. \<Sum>j<n.
                  diag_delta n (\<lambda>m i. m \<noteq> i) (\<lambda>k m i. of_real (- gamma2)) k m i j k' r' c'))"
    by (intro adds_pure_all) (auto simp: P2_def pure_j_def pure_li_def)
  have we: "wf_tensor K (n ^ 2) (Pe s)" and w1: "wf_tensor K (n ^ 2) (P1 s)"
    and w2: "wf_tensor K (n ^ 2) (P2 s)"
    unfolding s_def
    using adds_apply(1) [OF ae, of "(z, z, z, z)"] adds_apply(1) [OF a1, of "(z, z, z, z)"]
          adds_apply(1) [OF a2, of "(z, z, z, z)"] wz
    by (simp_all add: Pe_def P1_def P2_def)
  have ent: "Pe s ! k ! (m * n + i) ! (m' * n + i')
               = (if m = m' \<and> i = i' then - \<i> * of_real (e_in_path ! k ! m - e_in_path ! k ! i) else 0)
             \<and> P1 s ! k ! (m * n + i) ! (m' * n + i')
               = (if m = m' \<and> i = i' \<and> m = i then of_real (- gamma1) else 0)
             \<and> P2 s ! k ! (m * n + i) ! (m' * n + i')
               = (if m = m' \<and> i = i' \<and> m \<noteq> i then of_real (- gamma2) else 0)"
    if k: "k < K" and m: "m < n" and i: "i < n" and m': "m' < n" and i': "i' < n" for k m i m' i'
  proof -
    have r: "m * n + i < n ^ 2" and c: "m' * n + i' < n ^ 2"
      using m i m' i' by (simp_all add: index_less_square)
    have "Pe s ! k ! (m * n + i) ! (m' * n + i')
            = (if m = m' \<and> i = i' \<and> True then - \<i> * of_real (e_in_path ! k ! m - e_in_path ! k ! i) else 0)"
      unfolding s_def
      using adds_apply(2) [OF ae _ k r c, of "(z, z, z, z)"] wz zn [OF k r c]
            diag_delta_sum [OF k m i m' i', of "\<lambda>m i. True"]
      by (simp add: Pe_def)
    moreover have "P1 s ! k ! (m * n + i) ! (m' * n + i')
            = (if m = m' \<and> i = i' \<and> m = i then of_real (- gamma1) else 0)"
      unfolding s_def
      using adds_apply(2) [OF a1 _ k r c, of "(z, z, z, z)"] wz zn [OF k r c]
            diag_delta_sum [OF k m i m' i', of "\<lambda>m i. m = i"]
      by (simp add: P1_def)
    moreover have "P2 s ! k ! (m * n + i) ! (m' * n + i')
            = (if m = m' \<and> i = i' \<and> m \<noteq> i then of_real (- gamma2) else 0)"
      unfolding s_def
      using adds_apply(2) [OF a2 _ k r c, of "(z, z, z, z)"] wz zn [OF k r c]
            diag_delta_sum [OF k m i m' i', of "\<lambda>m i. m \<noteq> i"]
      by (simp add: P2_def)
    ultimately show ?thesis by simp
  qed
  obtain rd re g1 g2 where s4: "s = (rd, re, g1, g2)" by (cases s)
  show ?thesis
    using run wd we w1 w2 ent
    unfolding s4 K_def [symmetric] n_def [symmetric]
    by (simp add: Pe_def P1_def P2_def)
qed

section \<open>Neighbours, tensors and the vector potential\<close>

lemma neighbours_periodic:
  "2 \<le> Nk1 \<Longrightarrow> k < Nk1 \<Longrightarrow> neighbours Nk1 k = ((k + 1) mod Nk1, (k + Nk1 - 1) mod Nk1)"
proof -
  assume a: "2 \<le> Nk1" "k < Nk1"
  show ?thesis
  proof (cases "k = 0")
    case True
    then show ?thesis using a by (simp add: neighbours_def)
  next
    case k0: False
    then have "k + Nk1 - 1 = (k - 1) + Nk1" by simp
    then have "(k + Nk1 - 1) mod Nk1 = (k - 1) mod Nk1" by (simp only: mod_add_self2)
    then have prev: "(k + Nk1 - 1) mod Nk1 = k - 1" using a by simp
    show ?thesis
    proof (cases "k = Nk1 - 1")
      case True
      then have "k + 1 = Nk1" using a by simp
      then have nxt: "(k + 1) mod Nk1 = 0" by simp
      have "neighbours Nk1 k = (0, k - 1)" using k0 True by (simp add: neighbours_def)
      then show ?thesis by (simp only: nxt prev)
    next
      case False
      then have "k + 1 < Nk1" using a by simp
      then have nxt: "(k + 1) mod Nk1 = k + 1" by simp
      have "neighbours Nk1 k = (k + 1, k - 1)" using k0 False by (simp add: neighbours_def)
      then show ?thesis by (simp only: nxt prev)
    qed
  qed
qed

lemma fnumba_periodic_coupling:
  assumes rd: "wf_tensor (params_Nk1 params) (n ^ 2) rhs_dipole"
      and re: "wf_tensor (params_Nk1 params) (n ^ 2) rhs_e"
      and g1: "wf_tensor (params_Nk1 params) (n ^ 2) rhs_gamma1"
      and g2: "wf_tensor (params_Nk1 params) (n ^ 2) rhs_gamma2"
      and ly: "length y = params_Nk1 params * n ^ 2 + 1"
      and ly0: "length y0 = params_Nk1 params * n ^ 2 + 1"
      and dk: "dk \<noteq> 0"
      and two: "2 \<le> params_Nk1 params"
  shows "\<exists>x. (\<forall>bz. fnumba n electric_field t y rhs_dipole rhs_e rhs_gamma1 rhs_gamma2 y0
                      (params\<lparr>params_BZ_type := bz\<rparr>) dk = Some x)
             \<and> (\<forall>k<params_Nk1 params. \<forall>r<n ^ 2. x ! (k * n ^ 2 + r) =
                   sbe_rhs_entry n (electric_field t) (electric_field t / (2 * dk))
                     rhs_dipole rhs_e rhs_gamma1 rhs_gamma2 y y0 k r
                     (y ! (((k + 1) mod params_Nk1 params) * n ^ 2 + r))
                     (y ! (((k + params_Nk1 params - 1) mod params_Nk1 params) * n ^ 2 + r)))"
proof -
  from fnumba_result [OF rd re g1 g2 ly ly0 dk, of electric_field t]
  obtain x where x: "fnumba n electric_field t y rhs_dipole rhs_e rhs_gamma1 rhs_gamma2 y0 params dk = Some x"
    and ex: "\<forall>k<params_Nk1 params. \<forall>r<n ^ 2. x ! (k * n ^ 2 + r) =
               fnumba_entry n (params_Nk1 params) (electric_field t) (electric_field t / (2 * dk))
                 rhs_dipole rhs_e rhs_gamma1 rhs_gamma2 y y0 k r"
    by blast
  have bz: "fnumba n electric_field t y rhs_dipole rhs_e rhs_gamma1 rhs_gamma2 y0
              (params\<lparr>params_BZ_type := bz\<rparr>) dk = Some x" for bz
    using x by (simp add: fnumba_def)
  have "x ! (k * n ^ 2 + r) =
          sbe_rhs_entry n (electric_field t) (electric_field t / (2 * dk))
            rhs_dipole rhs_e rhs_gamma1 rhs_gamma2 y y0 k r
            (y ! (((k + 1) mod params_Nk1 params) * n ^ 2 + r))
            (y ! (((k + params_Nk1 params - 1) mod params_Nk1 params) * n ^ 2 + r))"
    if k: "k < params_Nk1 params" and r: "r < n ^ 2" for k r
  proof -
    have "(k + 1) mod params_Nk1 params < params_Nk1 params" using k by simp
    then show ?thesis
      using ex k r by (simp add: fnumba_entry_def neighbours_periodic [OF two k])
  qed
  then show ?thesis using bz by blast
qed

text \<open>
  C1. On a path of two or more k-points the neighbour indices are \<open>k + 1\<close> and
  \<open>k - 1\<close> modulo \<open>Nk1\<close>, whatever the Brillouin-zone type
  (\<open>neighbours_periodic\<close>, \<open>fnumba_periodic_coupling\<close>). On a path of a single
  k-point the first branch gives \<open>i_k = 1\<close> where the wrap gives \<open>0\<close>: the block
  read as the next neighbour is the vector potential at the end of the state. With
  field \<open>E = 2\<close>, \<open>dk = 1\<close> (so \<open>D = 1\<close>) and all tensors zero, the state \<open>[1, 0]\<close>
  has the derivative \<open>D * (0 - 1) = -1\<close> in its k-point entry, and the state
  \<open>[1, 2, 3, 4, 7]\<close> of two bands \<open>D * (7 - y)\<close>; the periodic wrap would give
  \<open>D * (y - y) = 0\<close>.
\<close>

theorem single_point_path_neighbour:
  "neighbours 1 0 = (1, 0)
   \<and> fnumba 1 (\<lambda>t. 2) 0 [1, 0] [[[0]]] [[[0]]] [[[0]]] [[[0]]] [1, 0]
        \<lparr>params_n = 1, params_Nk1 = 1, params_BZ_type = ''full''\<rparr> 1 = Some [- 1, - 2]
   \<and> fnumba 2 (\<lambda>t. 2) 0 [1, 2, 3, 4, 7] (zeros3 1 4 4) (zeros3 1 4 4) (zeros3 1 4 4) (zeros3 1 4 4)
        [1, 2, 3, 4, 0]
        \<lparr>params_n = 2, params_Nk1 = 1, params_BZ_type = ''full''\<rparr> 1 = Some [6, 5, 4, 3, - 2]"
  by (simp add: neighbours_def fnumba_def fnumba_k_def nth_opt_def mat_add_def mat_scale_def
        np_dot_def py_slice_def slice_iadd_def np_broadcast_def zeros3_def eval_nat_numeral)

text \<open>
  C2. For a path with \<open>Nk1\<close> k-points and \<open>n\<close> bands, called with the damping
  rates \<open>1 / T1\<close> and \<open>1 / T2\<close> as the solver does: at every k-point the energy
  tensor has \<open>- \<i> (E\<^sub>m - E\<^sub>i)\<close> at the diagonal position of the vectorized index
  \<open>(m, i)\<close> and zero off the diagonal; the population-decay tensor has \<open>- 1 / T1\<close> at
  the diagonal positions with \<open>m = i\<close> and zero elsewhere; the coherence-decay tensor
  has \<open>- 1 / T2\<close> at the diagonal positions with \<open>m \<noteq> i\<close> and zero elsewhere.
\<close>

theorem liouville_tensors_diagonal:
  assumes "wf_tensor (params_Nk1 params) (params_n params) dipole_in_path"
      and "wf_array2 (params_Nk1 params) (params_n params) e_in_path"
  shows "\<exists>rhs_dipole rhs_e rhs_gamma1 rhs_gamma2.
           rhs_of_sbe params dipole_in_path e_in_path dk (1 / T1) (1 / T2)
             = Some (rhs_dipole, rhs_e, rhs_gamma1, rhs_gamma2)
           \<and> (\<forall>k<params_Nk1 params. \<forall>m<params_n params. \<forall>i<params_n params.
                \<forall>m'<params_n params. \<forall>i'<params_n params.
                  rhs_e ! k ! (m * params_n params + i) ! (m' * params_n params + i')
                    = (if m = m' \<and> i = i'
                       then - \<i> * of_real (e_in_path ! k ! m - e_in_path ! k ! i) else 0)
                  \<and> rhs_gamma1 ! k ! (m * params_n params + i) ! (m' * params_n params + i')
                    = (if m = m' \<and> i = i' \<and> m = i then of_real (- 1 / T1) else 0)
                  \<and> rhs_gamma2 ! k ! (m * params_n params + i) ! (m' * params_n params + i')
                    = (if m = m' \<and> i = i' \<and> m \<noteq> i then of_real (- 1 / T2) else 0))"
proof -
  from rhs_of_sbe_result [OF assms, of dk "1 / T1" "1 / T2"]
  obtain rd re g1 g2 where
    "rhs_of_sbe params dipole_in_path e_in_path dk (1 / T1) (1 / T2) = Some (rd, re, g1, g2)"
    and "\<forall>k<params_Nk1 params. \<forall>m<params_n params. \<forall>i<params_n params.
           \<forall>m'<params_n params. \<forall>i'<params_n params.
             re ! k ! (m * params_n params + i) ! (m' * params_n params + i')
               = (if m = m' \<and> i = i'
                  then - \<i> * of_real (e_in_path ! k ! m - e_in_path ! k ! i) else 0)
             \<and> g1 ! k ! (m * params_n params + i) ! (m' * params_n params + i')
               = (if m = m' \<and> i = i' \<and> m = i then of_real (- (1 / T1)) else 0)
             \<and> g2 ! k ! (m * params_n params + i) ! (m' * params_n params + i')
               = (if m = m' \<and> i = i' \<and> m \<noteq> i then of_real (- (1 / T2)) else 0)"
    by blast
  then show ?thesis by (intro exI conjI) (assumption, simp)
qed

theorem liouville_tensors_diagonal_witness:
  "\<exists>rhs_dipole rhs_e rhs_gamma1 rhs_gamma2.
     rhs_of_sbe \<lparr>params_n = 2, params_Nk1 = 1, params_BZ_type = ''full''\<rparr>
        [[[1, 2], [3, 4]]] [[10, 20]] 1 (1 / 5) (1 / 7)
       = Some (rhs_dipole, rhs_e, rhs_gamma1, rhs_gamma2)
     \<and> rhs_e ! 0 ! 1 ! 1 = - \<i> * of_real (10 - 20)
     \<and> rhs_e ! 0 ! 1 ! 2 = 0
     \<and> rhs_gamma1 ! 0 ! 3 ! 3 = of_real (- 1 / 5)
     \<and> rhs_gamma1 ! 0 ! 1 ! 1 = 0
     \<and> rhs_gamma2 ! 0 ! 1 ! 1 = of_real (- 1 / 7)
     \<and> rhs_gamma2 ! 0 ! 3 ! 3 = 0"
proof -
  have d: "wf_tensor (params_Nk1 \<lparr>params_n = 2, params_Nk1 = 1, params_BZ_type = ''full''\<rparr>)
             (params_n \<lparr>params_n = 2, params_Nk1 = 1, params_BZ_type = ''full''\<rparr>) [[[1, 2], [3, 4]]]"
    by (simp add: wf_tensor_def wf_mat_def)
  have e: "wf_array2 (params_Nk1 \<lparr>params_n = 2, params_Nk1 = 1, params_BZ_type = ''full''\<rparr>)
             (params_n \<lparr>params_n = 2, params_Nk1 = 1, params_BZ_type = ''full''\<rparr>) [[10, 20::real]]"
    by (simp add: wf_array2_def)
  from liouville_tensors_diagonal [OF d e, of 1 5 7]
  obtain rd re g1 g2 where
    run: "rhs_of_sbe \<lparr>params_n = 2, params_Nk1 = 1, params_BZ_type = ''full''\<rparr>
            [[[1, 2], [3, 4]]] [[10, 20]] 1 (1 / 5) (1 / 7) = Some (rd, re, g1, g2)"
    and ent: "\<forall>k<1. \<forall>m<2. \<forall>i<2. \<forall>m'<2. \<forall>i'<2.
             re ! k ! (m * 2 + i) ! (m' * 2 + i')
               = (if m = m' \<and> i = i' then - \<i> * of_real ([[10, 20::real]] ! k ! m - [[10, 20]] ! k ! i) else 0)
             \<and> g1 ! k ! (m * 2 + i) ! (m' * 2 + i')
               = (if m = m' \<and> i = i' \<and> m = i then of_real (- 1 / 5) else 0)
             \<and> g2 ! k ! (m * 2 + i) ! (m' * 2 + i')
               = (if m = m' \<and> i = i' \<and> m \<noteq> i then of_real (- 1 / 7) else 0)"
    by auto
  from ent [rule_format, of 0 0 1 0 1] ent [rule_format, of 0 0 1 1 0] ent [rule_format, of 0 1 1 1 1]
  have "re ! 0 ! 1 ! 1 = - \<i> * of_real (10 - 20)" "re ! 0 ! 1 ! 2 = 0"
    "g1 ! 0 ! 3 ! 3 = of_real (- 1 / 5)" "g1 ! 0 ! 1 ! 1 = 0"
    "g2 ! 0 ! 1 ! 1 = of_real (- 1 / 7)" "g2 ! 0 ! 3 ! 3 = 0"
    by simp_all
  with run show ?thesis by blast
qed

text \<open>
  C9. Whenever \<^verbatim>\<open>fnumba\<close> returns, the last component of the result is \<open>- E(t)\<close>,
  whatever the state; it does return for tensors and states of the right shapes. The
  initial state of the solver ends with the vector potential \<open>0\<close>.
\<close>

theorem vector_potential_component:
  "(\<forall>x. fnumba n electric_field t y rhs_dipole rhs_e rhs_gamma1 rhs_gamma2 y0 params dk = Some x
        \<longrightarrow> last x = of_real (- electric_field t))
   \<and> (wf_tensor (params_Nk1 params) (n ^ 2) rhs_dipole \<and> wf_tensor (params_Nk1 params) (n ^ 2) rhs_e
      \<and> wf_tensor (params_Nk1 params) (n ^ 2) rhs_gamma1 \<and> wf_tensor (params_Nk1 params) (n ^ 2) rhs_gamma2
      \<and> length y = params_Nk1 params * n ^ 2 + 1 \<and> length y0 = params_Nk1 params * n ^ 2 + 1
      \<and> dk \<noteq> 0
        \<longrightarrow> (\<exists>x. fnumba n electric_field t y rhs_dipole rhs_e rhs_gamma1 rhs_gamma2 y0 params dk = Some x))
   \<and> (\<forall>v. solver_y0 e_fermi temperature e_in_path = Some v \<longrightarrow> last v = 0)
   \<and> (e_in_path \<noteq> [] \<and> hd e_in_path \<noteq> []
        \<longrightarrow> (\<exists>v. solver_y0 e_fermi temperature e_in_path = Some v))"
proof (intro conjI allI impI)
  fix x
  assume "fnumba n electric_field t y rhs_dipole rhs_e rhs_gamma1 rhs_gamma2 y0 params dk = Some x"
  then show "last x = of_real (- electric_field t)"
    by (auto simp: fnumba_def Let_def last_list_update split: if_splits bind_splits)
next
  assume "wf_tensor (params_Nk1 params) (n ^ 2) rhs_dipole \<and> wf_tensor (params_Nk1 params) (n ^ 2) rhs_e
      \<and> wf_tensor (params_Nk1 params) (n ^ 2) rhs_gamma1 \<and> wf_tensor (params_Nk1 params) (n ^ 2) rhs_gamma2
      \<and> length y = params_Nk1 params * n ^ 2 + 1 \<and> length y0 = params_Nk1 params * n ^ 2 + 1
      \<and> dk \<noteq> 0"
  then show "\<exists>x. fnumba n electric_field t y rhs_dipole rhs_e rhs_gamma1 rhs_gamma2 y0 params dk = Some x"
    using fnumba_result [of params n rhs_dipole rhs_e rhs_gamma1 rhs_gamma2 y y0 dk electric_field t]
    by blast
next
  fix v
  assume "solver_y0 e_fermi temperature e_in_path = Some v"
  then show "last v = 0"
    by (auto simp: solver_y0_def split: bind_splits)
next
  assume "e_in_path \<noteq> [] \<and> hd e_in_path \<noteq> []"
  then show "\<exists>v. solver_y0 e_fermi temperature e_in_path = Some v"
    by (simp add: solver_y0_def initial_condition_def Let_def)
qed

theorem vector_potential_component_witness:
  "fnumba 1 (\<lambda>t. 2 * t) 3 [1, 5, 9, 0] (zeros3 3 1 1) (zeros3 3 1 1) (zeros3 3 1 1) (zeros3 3 1 1)
      [1, 2, 3, 0] \<lparr>params_n = 1, params_Nk1 = 3, params_BZ_type = ''full''\<rparr> 1
     = Some [- 12, 24, - 12, - 6]
   \<and> last [- 12, 24, - 12, - 6 :: complex] = of_real (- (2 * 3))
   \<and> solver_y0 0 0 [[- 1, 1]] = Some [1, 0, 0, 0, 0]
   \<and> last [1, 0, 0, 0, 0 :: complex] = 0"
proof -
  have run: "fnumba 1 (\<lambda>t. 2 * t) 3 [1, 5, 9, 0] (zeros3 3 1 1) (zeros3 3 1 1) (zeros3 3 1 1) (zeros3 3 1 1)
      [1, 2, 3, 0] \<lparr>params_n = 1, params_Nk1 = 3, params_BZ_type = ''full''\<rparr> 1
     = Some [- 12, 24, - 12, - 6]"
    by (simp add: neighbours_def fnumba_def fnumba_k_def nth_opt_def mat_add_def mat_scale_def
        np_dot_def py_slice_def slice_iadd_def np_broadcast_def zeros3_def eval_nat_numeral)
  have y0: "solver_y0 0 0 [[- 1, 1]] = Some [1, 0, 0, 0, 0]"
    by (simp add: solver_y0_def initial_condition_def np_diag_def eval_nat_numeral)
  show ?thesis
    using vector_potential_component [of 1 "\<lambda>t. 2 * t" 3 "[1, 5, 9, 0]" "zeros3 3 1 1" "zeros3 3 1 1"
        "zeros3 3 1 1" "zeros3 3 1 1" "[1, 2, 3, 0]"
        "\<lparr>params_n = 1, params_Nk1 = 3, params_BZ_type = ''full''\<rparr>" 1 0 0 "[[- 1, 1]]"]
      run y0
    by simp
qed

section \<open>The initial condition and the state without a field\<close>

lemma np_diag_shape: "length (np_diag v) = length v \<and> (\<forall>row\<in>set (np_diag v). length row = length v)"
  by (auto simp: np_diag_def)

lemma np_diag_nth: "a < length v \<Longrightarrow> b < length v \<Longrightarrow> np_diag v ! a ! b = (if a = b then v ! a else 0)"
  by (simp add: np_diag_def)

lemma concat_np_diag:
  "length (concat (np_diag v)) = length v * length v"
  "a < length v \<Longrightarrow> b < length v \<Longrightarrow> concat (np_diag v) ! (a * length v + b) = (if a = b then v ! a else 0)"
proof -
  show "length (concat (np_diag v)) = length v * length v"
    using concat_uniform_length [of "np_diag v" "length v"] np_diag_shape [of v] by simp
  show "concat (np_diag v) ! (a * length v + b) = (if a = b then v ! a else 0)"
    if "a < length v" "b < length v"
    using concat_uniform_nth [of "np_diag v" "length v" a b] np_diag_shape [of v] that
    by (simp add: np_diag_nth)
qed

lemma initial_condition_result:
  assumes e: "wf_array2 K n e_in_path" and K: "0 < K" and n: "0 < n"
  shows "\<exists>y. initial_condition e_fermi temperature e_in_path = Some y
             \<and> length y = K * n ^ 2
             \<and> (\<forall>k<K. \<forall>a<n. \<forall>b<n. y ! (k * n ^ 2 + (a * n + b)) =
                   (if a = b then of_real (occupation e_fermi temperature (e_in_path ! k ! a)) else 0))"
proof -
  define f where "f = occupation e_fermi temperature"
  define distrib_bands where "distrib_bands = map (map f) e_in_path"
  define blocks where
    "blocks = map (\<lambda>k. concat (np_diag (map of_real (distrib_bands ! k)))) [0..<length e_in_path]"
  have le: "length e_in_path = K" and rows: "\<And>k. k < K \<Longrightarrow> length (e_in_path ! k) = n"
    using e by (simp_all add: wf_array2_def list_all_length)
  have ne: "e_in_path \<noteq> []" "hd e_in_path \<noteq> []"
    using le K rows [of 0] n by (auto simp: hd_conv_nth)
  have db: "(if temperature > 1 / 10 ^ 5
             then map (map (\<lambda>e. 1 / (exp ((e - e_fermi) / temperature) + 1))) e_in_path
             else map (map (\<lambda>e. if e_fermi - e > 0 then 1 else 0)) e_in_path) = distrib_bands"
    by (auto simp: distrib_bands_def f_def occupation_def fun_eq_iff)
  have run: "initial_condition e_fermi temperature e_in_path = Some (concat blocks)"
    using ne unfolding initial_condition_def Let_def db blocks_def by simp
  have lb: "length blocks = K" by (simp add: blocks_def le)
  have dk: "map complex_of_real (distrib_bands ! k) = map (\<lambda>x. of_real (f x)) (e_in_path ! k)"
    if "k < K" for k using that le by (simp add: distrib_bands_def)
  have bl: "length (blocks ! k) = n ^ 2" if "k < K" for k
    using that le rows [OF that] concat_np_diag(1) [of "map complex_of_real (distrib_bands ! k)"]
    by (simp add: blocks_def dk power2_eq_square)
  then have uni: "\<forall>xs\<in>set blocks. length xs = n ^ 2"
    using lb by (auto simp: in_set_conv_nth)
  have ent: "blocks ! k ! (a * n + b) = (if a = b then of_real (f (e_in_path ! k ! a)) else 0)"
    if "k < K" "a < n" "b < n" for k a b
    using that le rows [OF that(1)]
      concat_np_diag(2) [of a "map complex_of_real (distrib_bands ! k)" b]
    by (simp add: blocks_def dk)
  have "concat blocks ! (k * n ^ 2 + (a * n + b))
          = (if a = b then of_real (f (e_in_path ! k ! a)) else 0)"
    if k: "k < K" and a: "a < n" and b: "b < n" for k a b
  proof -
    have "a * n + b < n ^ 2" using a b by (rule index_less_square)
    then have "concat blocks ! (k * n ^ 2 + (a * n + b)) = blocks ! k ! (a * n + b)"
      using concat_uniform_nth [OF uni, of k "a * n + b"] k lb by simp
    then show ?thesis using ent [OF k a b] by simp
  qed
  moreover have "length (concat blocks) = K * n ^ 2"
    using concat_uniform_length [OF uni] lb by simp
  ultimately show ?thesis using run unfolding f_def by blast
qed



lemma equilibrium_entry_zero:
  assumes ent_e: "\<forall>m<n. \<forall>i<n. \<forall>m'<n. \<forall>i'<n.
             rhs_e ! k ! (m * n + i) ! (m' * n + i')
               = (if m = m' \<and> i = i' then - \<i> * of_real (e ! k ! m - e ! k ! i) else 0)
             \<and> rhs_gamma2 ! k ! (m * n + i) ! (m' * n + i')
               = (if m = m' \<and> i = i' \<and> m \<noteq> i then g else 0)"
      and ent_y: "\<forall>a<n. \<forall>b<n. y ! (k * n ^ 2 + (a * n + b)) = (if a = b then p a else 0)"
      and n: "0 < n" and r: "r < n ^ 2"
  shows "sbe_rhs_entry n 0 0 rhs_dipole rhs_e rhs_gamma1 rhs_gamma2 y y k r y_next y_prev = 0"
proof -
  define m where "m = r div n"
  define i where "i = r mod n"
  have r_eq: "r = m * n + i" by (simp add: m_def i_def)
  have i: "i < n" using n by (simp add: i_def)
  have m: "m < n" using r unfolding m_def power2_eq_square by (rule less_mult_imp_div_less)
  have tm: "(rhs_e ! k ! r ! c + rhs_gamma2 ! k ! r ! c) * y ! (k * n ^ 2 + c) = 0"
    if c: "c < n ^ 2" for c
  proof -
    define m' where "m' = c div n"
    define i' where "i' = c mod n"
    have c_eq: "c = m' * n + i'" by (simp add: m'_def i'_def)
    have i': "i' < n" using n by (simp add: i'_def)
    have m': "m' < n" using c unfolding m'_def power2_eq_square by (rule less_mult_imp_div_less)
    have E: "rhs_e ! k ! r ! c = (if m = m' \<and> i = i' then - \<i> * of_real (e ! k ! m - e ! k ! i) else 0)"
      and G: "rhs_gamma2 ! k ! r ! c = (if m = m' \<and> i = i' \<and> m \<noteq> i then g else 0)"
      using ent_e [rule_format, OF m i m' i'] unfolding r_eq c_eq by simp_all
    have Y: "y ! (k * n ^ 2 + c) = (if m' = i' then p m' else 0)"
      using ent_y [rule_format, OF m' i'] unfolding c_eq by simp
    show ?thesis
    proof (cases "m = m' \<and> i = i'")
      case True
      then show ?thesis unfolding E G Y by (cases "m = i") auto
    next
      case False
      then show ?thesis unfolding E G by auto
    qed
  qed
  have "(\<Sum>c<n ^ 2. (of_real 0 * rhs_dipole ! k ! r ! c + rhs_e ! k ! r ! c
                     + rhs_gamma2 ! k ! r ! c) * y ! (k * n ^ 2 + c)) = 0"
  proof (intro sum.neutral ballI)
    fix c assume "c \<in> {..<n ^ 2}"
    then have "c < n ^ 2" by simp
    from tm [OF this]
    show "(of_real 0 * rhs_dipole ! k ! r ! c + rhs_e ! k ! r ! c
             + rhs_gamma2 ! k ! r ! c) * y ! (k * n ^ 2 + c) = 0"
      by simp
  qed
  then show ?thesis
    unfolding sbe_rhs_entry_def by simp
qed

text \<open>
  With a field that is zero at all times, the equilibrium state (the initial
  condition with the vector potential zero) is a fixed point: with the tensors that
  \<^verbatim>\<open>rhs_of_sbe\<close> builds for the path, \<^verbatim>\<open>fnumba\<close> returns the zero vector at that state, at
  every time.
\<close>

theorem equilibrium_is_fixed_point:
  assumes d: "wf_tensor (params_Nk1 params) (params_n params) dipole_in_path"
      and e: "wf_array2 (params_Nk1 params) (params_n params) e_in_path"
      and K: "0 < params_Nk1 params" and n: "0 < params_n params"
      and dk: "dk \<noteq> 0"
      and E0: "\<forall>t. electric_field t = 0"
  shows "\<exists>rhs_dipole rhs_e rhs_gamma1 rhs_gamma2 y0.
           rhs_of_sbe params dipole_in_path e_in_path dk gamma1 gamma2
             = Some (rhs_dipole, rhs_e, rhs_gamma1, rhs_gamma2)
           \<and> solver_y0 e_fermi temperature e_in_path = Some y0
           \<and> (\<forall>t. fnumba (params_n params) electric_field t y0
                      rhs_dipole rhs_e rhs_gamma1 rhs_gamma2 y0 params dk
                    = Some (replicate (length y0) 0))"
proof -
  define Nk1 where "Nk1 = params_Nk1 params"
  define N where "N = params_n params"
  from rhs_of_sbe_result [OF d e, of dk gamma1 gamma2]
  obtain rd re g1 g2 where
    run: "rhs_of_sbe params dipole_in_path e_in_path dk gamma1 gamma2 = Some (rd, re, g1, g2)"
    and wf: "wf_tensor Nk1 (N ^ 2) rd" "wf_tensor Nk1 (N ^ 2) re"
            "wf_tensor Nk1 (N ^ 2) g1" "wf_tensor Nk1 (N ^ 2) g2"
    and ent: "\<forall>k<Nk1. \<forall>m<N. \<forall>i<N. \<forall>m'<N. \<forall>i'<N.
             re ! k ! (m * N + i) ! (m' * N + i')
               = (if m = m' \<and> i = i' then - \<i> * of_real (e_in_path ! k ! m - e_in_path ! k ! i) else 0)
             \<and> g1 ! k ! (m * N + i) ! (m' * N + i')
               = (if m = m' \<and> i = i' \<and> m = i then of_real (- gamma1) else 0)
             \<and> g2 ! k ! (m * N + i) ! (m' * N + i')
               = (if m = m' \<and> i = i' \<and> m \<noteq> i then of_real (- gamma2) else 0)"
    unfolding Nk1_def N_def by blast
  from initial_condition_result [OF e K n, of e_fermi temperature]
  obtain v where v: "initial_condition e_fermi temperature e_in_path = Some v"
    and lv: "length v = Nk1 * N ^ 2"
    and ev: "\<forall>k<Nk1. \<forall>a<N. \<forall>b<N. v ! (k * N ^ 2 + (a * N + b)) =
               (if a = b then of_real (occupation e_fermi temperature (e_in_path ! k ! a)) else 0)"
    unfolding Nk1_def N_def by blast
  define y0 where "y0 = v @ [0]"
  have s0: "solver_y0 e_fermi temperature e_in_path = Some y0"
    using v by (simp add: solver_y0_def y0_def)
  have ly: "length y0 = Nk1 * N ^ 2 + 1" using lv by (simp add: y0_def)
  have y0v: "y0 ! (k * N ^ 2 + c) = v ! (k * N ^ 2 + c)" if "k < Nk1" "c < N ^ 2" for k c
  proof -
    from that have "Suc k \<le> Nk1" by simp
    then have "Suc k * N ^ 2 \<le> Nk1 * N ^ 2" by (rule mult_le_mono1)
    then have "k * N ^ 2 + c < length v" using that lv by simp
    then show ?thesis by (simp add: y0_def nth_append)
  qed
  have fp: "fnumba N electric_field t y0 rd re g1 g2 y0 params dk = Some (replicate (length y0) 0)"
    for t
  proof -
    from fnumba_result [OF wf [unfolded Nk1_def] ly [unfolded Nk1_def] ly [unfolded Nk1_def] dk,
        of electric_field t]
    obtain x where x: "fnumba N electric_field t y0 rd re g1 g2 y0 params dk = Some x"
      and lx: "length x = Nk1 * N ^ 2 + 1"
      and last: "x ! (Nk1 * N ^ 2) = 0"
      and ex: "\<forall>k<Nk1. \<forall>r<N ^ 2. x ! (k * N ^ 2 + r) =
                 fnumba_entry N Nk1 0 0 rd re g1 g2 y0 y0 k r"
      using E0 unfolding Nk1_def by auto
    have zero: "x ! (k * N ^ 2 + r) = 0" if k: "k < Nk1" and r: "r < N ^ 2" for k r
    proof -
      have ee: "\<forall>m<N. \<forall>i<N. \<forall>m'<N. \<forall>i'<N.
             re ! k ! (m * N + i) ! (m' * N + i')
               = (if m = m' \<and> i = i' then - \<i> * of_real (e_in_path ! k ! m - e_in_path ! k ! i) else 0)
             \<and> g2 ! k ! (m * N + i) ! (m' * N + i')
               = (if m = m' \<and> i = i' \<and> m \<noteq> i then of_real (- gamma2) else 0)"
        using ent k by simp
      have yy: "\<forall>a<N. \<forall>b<N. y0 ! (k * N ^ 2 + (a * N + b)) =
                  (if a = b then of_real (occupation e_fermi temperature (e_in_path ! k ! a)) else 0)"
        using ev k y0v [OF k] by (simp add: index_less_square)
      show ?thesis
        using ex k r equilibrium_entry_zero [OF ee yy n [folded N_def] r]
        by (simp add: fnumba_entry_def split: prod.splits)
    qed
    have "x ! j = 0" if j: "j < length x" for j
    proof (cases "j = Nk1 * N ^ 2")
      case True
      then show ?thesis using last by simp
    next
      case False
      with j lx have jl: "j < Nk1 * N ^ 2" by simp
      have pos: "0 < N ^ 2" using n by (simp add: N_def)
      have "j div N ^ 2 < Nk1" using jl by (rule less_mult_imp_div_less)
      moreover have "j mod N ^ 2 < N ^ 2" using pos by simp
      moreover have "j = (j div N ^ 2) * N ^ 2 + j mod N ^ 2" by (rule div_mult_mod_eq [symmetric])
      ultimately show ?thesis using zero by metis
    qed
    then have "\<And>u. u \<in> set x \<Longrightarrow> u = 0"
      by (auto simp: in_set_conv_nth)
    moreover have "length x = length y0" using lx ly by simp
    ultimately have "x = replicate (length y0) 0"
      by (intro replicate_eqI)
    then show ?thesis using x by simp
  qed
  show ?thesis using run s0 fp unfolding N_def by blast
qed

theorem equilibrium_is_fixed_point_witness:
  "\<exists>rhs_dipole rhs_e rhs_gamma1 rhs_gamma2.
     rhs_of_sbe \<lparr>params_n = 2, params_Nk1 = 2, params_BZ_type = ''2line''\<rparr>
        [[[0, 1], [1, 0]], [[0, \<i>], [- \<i>, 0]]] [[- 1, 1], [- 2, 2]] (1 / 2) (1 / 1000) 1
       = Some (rhs_dipole, rhs_e, rhs_gamma1, rhs_gamma2)
     \<and> solver_y0 0 0 [[- 1, 1], [- 2, 2]] = Some [1, 0, 0, 0, 1, 0, 0, 0, 0]
     \<and> fnumba 2 (\<lambda>t. 0) 7 [1, 0, 0, 0, 1, 0, 0, 0, 0]
          rhs_dipole rhs_e rhs_gamma1 rhs_gamma2 [1, 0, 0, 0, 1, 0, 0, 0, 0]
          \<lparr>params_n = 2, params_Nk1 = 2, params_BZ_type = ''2line''\<rparr> (1 / 2)
        = Some [0, 0, 0, 0, 0, 0, 0, 0, 0]"
proof -
  define P where "P = \<lparr>params_n = 2, params_Nk1 = 2, params_BZ_type = ''2line''\<rparr>"
  have d: "wf_tensor (params_Nk1 P) (params_n P) [[[0, 1], [1, 0]], [[0, \<i>], [- \<i>, 0]]]"
    by (simp add: P_def wf_tensor_def wf_mat_def)
  have e: "wf_array2 (params_Nk1 P) (params_n P) [[- 1, 1], [- 2, 2::real]]"
    by (simp add: P_def wf_array2_def)
  have h: "0 < params_Nk1 P" "0 < params_n P" "(1 / 2 :: real) \<noteq> 0" "\<forall>t::real. (\<lambda>t. 0::real) t = 0"
    by (simp_all add: P_def)
  have y0: "solver_y0 0 0 [[- 1, 1], [- 2, 2]] = Some [1, 0, 0, 0, 1, 0, 0, 0, 0]"
    by (simp add: solver_y0_def initial_condition_def np_diag_def eval_nat_numeral)
  from equilibrium_is_fixed_point [OF d e h, of "1 / 1000" 1 0 0]
  obtain rd re g1 g2 v where
    r: "rhs_of_sbe P [[[0, 1], [1, 0]], [[0, \<i>], [- \<i>, 0]]] [[- 1, 1], [- 2, 2]] (1 / 2) (1 / 1000) 1
          = Some (rd, re, g1, g2)"
    and s: "solver_y0 0 0 [[- 1, 1], [- 2, 2]] = Some v"
    and f: "\<forall>t. fnumba (params_n P) (\<lambda>t. 0) t v rd re g1 g2 v P (1 / 2) = Some (replicate (length v) 0)"
    by blast
  from s y0 have v: "v = [1, 0, 0, 0, 1, 0, 0, 0, 0]" by simp
  from f [rule_format, of 7]
  have "fnumba 2 (\<lambda>t. 0) 7 [1, 0, 0, 0, 1, 0, 0, 0, 0] rd re g1 g2 [1, 0, 0, 0, 1, 0, 0, 0, 0] P (1 / 2)
          = Some [0, 0, 0, 0, 0, 0, 0, 0, 0]"
    unfolding v by (simp add: P_def eval_nat_numeral)
  with r y0 show ?thesis unfolding P_def by blast
qed

text \<open>
  Without a field the state does not move: when the loop runs (\<open>Nt\<close> at least \<open>20\<close>)
  with an integrator that returns a stationary state unchanged, every density matrix
  it stores is the initial condition.
\<close>

lemma zero_field_no_evolution:
  assumes d: "wf_tensor (params_Nk1 params) (params_n params) dipole_in_path"
      and e: "wf_array2 (params_Nk1 params) (params_n params) e_in_path"
      and K: "0 < params_Nk1 params" and n: "0 < params_n params"
      and dk: "dk \<noteq> 0"
      and E0: "\<forall>t. electric_field t = 0"
      and ks: "\<And>f. keeps_stationary integrate f"
      and Nt: "derived_Nt params_t0 params_dt = Inr (printed, Nt)" "20 \<le> Nt"
  shows "\<exists>sol rho0. initial_condition e_fermi temperature e_in_path = Some rho0
           \<and> sbe_solver_path fs_to_au integrate work electric_field e_fermi temperature params
                params_t0 params_dt dipole_in_path e_in_path dk gamma1 gamma2 = Inr sol
           \<and> length sol = nat Nt
           \<and> (\<forall>p \<in> set sol. snd p = rho0)"
proof -
  from equilibrium_is_fixed_point [OF d e K n dk E0, of gamma1 gamma2 e_fermi temperature]
  obtain rd re g1 g2 y0 where
    r: "rhs_of_sbe params dipole_in_path e_in_path dk gamma1 gamma2 = Some (rd, re, g1, g2)"
    and y: "solver_y0 e_fermi temperature e_in_path = Some y0"
    and fp: "\<forall>t. fnumba (params_n params) electric_field t y0 rd re g1 g2 y0 params dk
                 = Some (replicate (length y0) 0)"
    by blast
  from initial_condition_result [OF e K n, of e_fermi temperature]
  obtain rho0 where i: "initial_condition e_fermi temperature e_in_path = Some rho0"
    "length rho0 = params_Nk1 params * params_n params ^ 2" by blast
  have y0: "y0 = rho0 @ [0]" using y i(1) by (simp add: solver_y0_def)
  define f where "f = (\<lambda>t y. fnumba (params_n params) electric_field t y rd re g1 g2 y0 params dk)"
  define t0 where "t0 = fl64 (fl64 params_t0 * fs_to_au)"
  define dt where "dt = fl64 (fl64 params_dt * fs_to_au)"
  have st: "\<exists>solver'. integrate f solver target = Inr solver'
              \<and> ode_t solver' = target \<and> ode_successful solver' \<and> ode_y solver' = y0"
    if "ode_y solver = y0" "ode_successful solver" for solver target
    using ks [of f] fp that unfolding keeps_stationary_def f_def by metis
  have sh: "length v = params_Nk1 params * params_n params * params_n params + 1" if "v = y0" for v
    using that i(2) by (simp add: y0 power2_eq_square)
  from propagate_invariant [of "\<lambda>v. v = y0" integrate f "params_Nk1 params" "params_n params" Nt
         "\<lparr>ode_work = work, ode_t = t0, ode_y = y0, ode_successful = True\<rparr>" 0 dt]
       st sh Nt(2)
  obtain sol where s: "propagate integrate f (params_Nk1 params) (params_n params) Nt dt 0
                      \<lparr>ode_work = work, ode_t = t0, ode_y = y0, ode_successful = True\<rparr> = Inr sol"
    "length sol = nat (Nt - 0)" "\<forall>p \<in> set sol. \<exists>v. v = y0 \<and> snd p = butlast v"
    by auto
  have run: "sbe_solver_path fs_to_au integrate work electric_field e_fermi temperature params
                params_t0 params_dt dipole_in_path e_in_path dk gamma1 gamma2 = Inr sol"
    unfolding sbe_solver_path_def Nt(1) Let_def r y
    using s(1) by (simp add: f_def t0_def dt_def)
  have "\<forall>p \<in> set sol. snd p = rho0" using s(3) by (simp add: y0)
  then show ?thesis using i(1) run s(2) by auto
qed

text \<open>
  C4. The field is zero and the state is the equilibrium state, but the window is
  short: \<open>t0 = -1\<close>, \<open>dt = 0.5\<close>, five steps. The remainder \<^verbatim>\<open>ti % (Nt//20)\<close> at the head
  of the loop divides by zero, whatever the integrator: no density matrix is stored.
\<close>

theorem zero_field_short_window:
  "derived_Nt (- 1) (1 / 2) = Inr ([], 5)
   \<and> solver_y0 0 0 [[- 1, 1], [- 2, 2]] = Some [1, 0, 0, 0, 1, 0, 0, 0, 0]
   \<and> sbe_solver_path fs_to_au integrate work (\<lambda>t. 0) 0 0
        \<lparr>params_n = 2, params_Nk1 = 2, params_BZ_type = ''2line''\<rparr> (- 1) (1 / 2)
        [[[0, 1], [1, 0]], [[0, \<i>], [- \<i>, 0]]] [[- 1, 1], [- 2, 2]] (1 / 2) (1 / 1000) 1
     = Inl ZeroDivisionError"
proof -
  define P where "P = \<lparr>params_n = 2, params_Nk1 = 2, params_BZ_type = ''2line''\<rparr>"
  have d: "wf_tensor (params_Nk1 P) (params_n P) [[[0, 1], [1, 0]], [[0, \<i>], [- \<i>, 0]]]"
    by (simp add: P_def wf_tensor_def wf_mat_def)
  have e: "wf_array2 (params_Nk1 P) (params_n P) [[- 1, 1], [- 2, 2::real]]"
    by (simp add: P_def wf_array2_def)
  have y0: "solver_y0 0 0 [[- 1, 1], [- 2, 2]] = Some [1, 0, 0, 0, 1, 0, 0, 0, 0]"
    by (simp add: solver_y0_def initial_condition_def np_diag_def eval_nat_numeral)
  from rhs_of_sbe_result [OF d e, of "1 / 2" "1 / 1000" 1]
  obtain rd re g1 g2 where
    r: "rhs_of_sbe P [[[0, 1], [1, 0]], [[0, \<i>], [- \<i>, 0]]] [[- 1, 1], [- 2, 2]] (1 / 2) (1 / 1000) 1
          = Some (rd, re, g1, g2)"
    by blast
  have "sbe_solver_path fs_to_au integrate work (\<lambda>t. 0) 0 0 P (- 1) (1 / 2)
          [[[0, 1], [1, 0]], [[0, \<i>], [- \<i>, 0]]] [[- 1, 1], [- 2, 2]] (1 / 2) (1 / 1000) 1
        = Inl ZeroDivisionError"
    unfolding sbe_solver_path_def derived_Nt_short_window Let_def r y0
    by (simp add: propagate.simps)
  then show ?thesis using derived_Nt_short_window y0 unfolding P_def by simp
qed

section \<open>The spectrum\<close>

lemma fft_length: "length (fft a) = length a"
  by (simp add: fft_def Let_def)

lemma fft_nth:
  "k < length a \<Longrightarrow>
     fft a ! k = (\<Sum>m<length a. a ! m * exp (- 2 * of_real pi * \<i> * of_nat m * of_nat k / of_nat (length a)))"
  by (simp add: fft_def Let_def interv_sum_list_conv_sum_set_nat atLeast0LessThan)

lemma fftshift_length: "length (fftshift x) = length x"
  by (simp add: fftshift_def)

lemma ifftshift_length: "length (ifftshift x) = length x"
  by (simp add: ifftshift_def)

lemma fftshift_nth:
  "j < length x \<Longrightarrow> fftshift x ! j = x ! ((j + (length x - length x div 2)) mod length x)"
  by (simp add: fftshift_def nth_rotate add.commute)

lemma ifftshift_nth:
  "m < length x \<Longrightarrow> ifftshift x ! m = x ! ((m + length x div 2) mod length x)"
  by (simp add: ifftshift_def nth_rotate add.commute)

lemma fftfreq_length: "length (fftfreq N d) = N"
  by (simp add: fftfreq_def)

lemma fftfreq_shifted_nth:
  assumes j: "j < N"
  shows "fftshift (fftfreq N d) ! j = (real j - real (N div 2)) / (real N * d)"
proof -
  define h where "h = N div 2"
  have N: "0 < N" using j by simp
  have half: "(N - 1) div 2 + 1 = N - h" using N unfolding h_def by presburger
  have hN: "h \<le> N" unfolding h_def by simp
  define k where "k = (j + (N - h)) mod N"
  have kN: "k < N" using N by (simp add: k_def)
  have sh: "fftshift (fftfreq N d) ! j = fftfreq N d ! k"
    using j by (simp add: fftshift_nth fftfreq_length k_def h_def)
  have fk: "fftfreq N d ! k = (if k < N - h then real k else real k - real N) * (1 / (real N * d))"
    using kN half by (simp add: fftfreq_def)
  show ?thesis
  proof (cases "j < h")
    case True
    then have "j + (N - h) < N" using hN by simp
    then have k: "k = j + (N - h)" by (simp add: k_def)
    then have "\<not> k < N - h" by simp
    moreover have "real k - real N = real j - real h" using k hN by (simp add: of_nat_diff)
    ultimately show ?thesis using sh fk by (simp add: h_def)
  next
    case False
    then have "j + (N - h) = N + (j - h)" using hN by simp
    then have "k = (j - h) mod N" unfolding k_def by (simp only: mod_add_self1)
    then have k: "k = j - h" using j by simp
    then have "k < N - h" using j False by simp
    moreover have "real k = real j - real h" using k False by (simp add: of_nat_diff)
    ultimately show ?thesis using sh fk by (simp add: h_def)
  qed
qed

lemma fourier_length: "length (fourier dt data) = length data"
  by (simp add: fourier_def fftshift_length fft_length ifftshift_length)

lemma fourier_nth:
  assumes j: "j < length data"
  shows "fourier dt data ! j =
           of_real (dt / sqrt (2 * pi))
           * (\<Sum>m<length data.
                data ! ((m + length data div 2) mod length data)
                * exp (- 2 * of_real pi * \<i> * of_nat m
                       * of_nat ((j + (length data - length data div 2)) mod length data)
                       / of_nat (length data)))"
proof -
  define N where "N = length data"
  define k where "k = (j + (N - N div 2)) mod N"
  have N: "0 < N" using j unfolding N_def by (cases data) simp_all
  have kN: "k < N" using N by (simp add: k_def)
  have "fourier dt data ! j = of_real (dt / sqrt (2 * pi)) * fftshift (fft (ifftshift data)) ! j"
    using j by (simp add: fourier_def fftshift_length fft_length ifftshift_length)
  also have "fftshift (fft (ifftshift data)) ! j = fft (ifftshift data) ! k"
    using j by (simp add: fftshift_nth fft_length ifftshift_length k_def N_def)
  also have "fft (ifftshift data) ! k
      = (\<Sum>m<N. ifftshift data ! m * exp (- 2 * of_real pi * \<i> * of_nat m * of_nat k / of_nat N))"
    using kN by (simp add: fft_nth ifftshift_length N_def)
  also have "\<dots> = (\<Sum>m<N. data ! ((m + N div 2) mod N)
                        * exp (- 2 * of_real pi * \<i> * of_nat m * of_nat k / of_nat N))"
    by (intro sum.cong refl) (simp add: ifftshift_nth N_def)
  finally show ?thesis unfolding k_def N_def .
qed

lemma twiddle_cong:
  fixes a b :: int
  assumes N: "0 < N" and ab: "(a - b) mod int N = 0"
  shows "exp (- 2 * of_real pi * \<i> * of_int a / of_nat N)
           = exp (- 2 * of_real pi * \<i> * of_int b / of_nat N)"
proof -
  from ab obtain c where c: "a - b = int N * c" by (auto simp: mod_eq_0_iff_dvd)
  then have a: "a = b + int N * c" by simp
  have Nz: "(of_nat N :: real) \<noteq> 0" using N by simp
  have e: "exp (- 2 * of_real pi * \<i> * of_int q / of_nat N) = cis (- 2 * pi * real_of_int q / real N)"
    for q
    by (simp add: cis_conv_exp mult_ac)
  have "- 2 * pi * real_of_int a / real N = - 2 * pi * real_of_int b / real N + 2 * pi * real_of_int (- c)"
    using Nz unfolding a by (simp add: field_simps)
  then have "cis (- 2 * pi * real_of_int a / real N)
               = cis (- 2 * pi * real_of_int b / real N) * cis (2 * pi * real_of_int (- c))"
    by (simp only: cis_mult)
  also have "cis (2 * pi * real_of_int (- c)) = 1"
    by (rule cis_multiple_2pi) simp
  finally have "cis (- 2 * pi * real_of_int a / real N) = cis (- 2 * pi * real_of_int b / real N)"
    by simp
  then show ?thesis by (simp only: e)
qed

lemma fourier_centred:
  assumes j: "j < length data"
  shows "fourier dt data ! j =
           of_real (dt / sqrt (2 * pi))
           * (\<Sum>m<length data.
                data ! m
                * exp (- 2 * of_real pi * \<i>
                       * of_int ((int m - int (length data div 2)) * (int j - int (length data div 2)))
                       / of_nat (length data)))"
proof -
  define N where "N = length data"
  define h where "h = N div 2"
  define k where "k = (j + (N - h)) mod N"
  define W where "W q = exp (- 2 * of_real pi * \<i> * of_int q / of_nat N)" for q :: int
  have N: "0 < N" using j unfolding N_def by (cases data) simp_all
  have hN: "h \<le> N" by (simp add: h_def)
  have kc: "(int k - (int j - int h)) mod int N = 0"
  proof -
    have "int k = (int j + (int N - int h)) mod int N"
      using hN by (simp add: k_def of_nat_mod of_nat_diff algebra_simps)
    then have "(int k - (int j - int h)) mod int N
                 = ((int j + (int N - int h)) mod int N - (int j - int h)) mod int N" by simp
    also have "\<dots> = ((int j + (int N - int h)) - (int j - int h)) mod int N"
      by (simp add: mod_diff_left_eq)
    also have "\<dots> = 0" by simp
    finally show ?thesis .
  qed
  have tm: "data ! ((m + h) mod N) * exp (- 2 * of_real pi * \<i> * of_nat m * of_nat k / of_nat N)
                = data ! ((m + h) mod N) * W ((int ((m + h) mod N) - int h) * (int j - int h))"
    for m
  proof -
    have mc: "(int m - (int ((m + h) mod N) - int h)) mod int N = 0"
    proof -
      have "(int m - (int ((m + h) mod N) - int h)) mod int N
              = ((int m + int h) - (int m + int h) mod int N) mod int N"
        by (simp add: of_nat_mod algebra_simps)
      also have "\<dots> = 0" by (simp add: mod_diff_right_eq)
      finally show ?thesis .
    qed
    have "(int m * int k - (int ((m + h) mod N) - int h) * (int j - int h)) mod int N = 0"
    proof -
      have "int m * int k mod int N
              = ((int m mod int N) * (int k mod int N)) mod int N"
        by (simp add: mod_mult_eq)
      also have "int m mod int N = (int ((m + h) mod N) - int h) mod int N"
        using mc by (metis mod_0 diff_add_cancel mod_add_left_eq add.left_neutral)
      also have "int k mod int N = (int j - int h) mod int N"
        using kc by (metis mod_0 diff_add_cancel mod_add_left_eq add.left_neutral)
      also have "((int ((m + h) mod N) - int h) mod int N * ((int j - int h) mod int N)) mod int N
                   = ((int ((m + h) mod N) - int h) * (int j - int h)) mod int N"
        by (simp add: mod_mult_eq)
      finally show ?thesis by (simp add: mod_eq_0_iff_dvd mod_eq_dvd_iff)
    qed
    from twiddle_cong [OF N this]
    have "exp (- 2 * of_real pi * \<i> * of_int (int m * int k) / of_nat N)
            = W ((int ((m + h) mod N) - int h) * (int j - int h))"
      by (simp add: W_def)
    then show ?thesis by (simp add: mult.assoc)
  qed
  have "(\<Sum>m<N. data ! ((m + h) mod N) * exp (- 2 * of_real pi * \<i> * of_nat m * of_nat k / of_nat N))
          = (\<Sum>m<N. data ! ((m + h) mod N) * W ((int ((m + h) mod N) - int h) * (int j - int h)))"
    by (simp only: tm)
  also have "\<dots> = (\<Sum>m<N. data ! m * W ((int m - int h) * (int j - int h)))"
  proof (rule sum.reindex_bij_witness [where i = "\<lambda>m. (m + (N - h)) mod N" and j = "\<lambda>m. (m + h) mod N"])
    fix m assume "m \<in> {..<N}"
    then have m: "m < N" by simp
    have "((m + h) mod N + (N - h)) mod N = (m + h + (N - h)) mod N"
      by (simp add: mod_add_left_eq)
    also have "\<dots> = (m + N) mod N" using hN by simp
    also have "\<dots> = m" using m by simp
    finally show "((m + h) mod N + (N - h)) mod N = m" .
    show "(m + h) mod N \<in> {..<N}" using N by simp
    show "data ! ((m + h) mod N) * W ((int ((m + h) mod N) - int h) * (int j - int h))
            = data ! ((m + h) mod N) * W ((int ((m + h) mod N) - int h) * (int j - int h))" ..
  next
    fix m assume "m \<in> {..<N}"
    then have m: "m < N" by simp
    have "((m + (N - h)) mod N + h) mod N = (m + (N - h) + h) mod N"
      by (simp add: mod_add_left_eq)
    also have "\<dots> = (m + N) mod N" using hN by simp
    also have "\<dots> = m" using m by simp
    finally show "((m + (N - h)) mod N + h) mod N = m" .
    show "(m + (N - h)) mod N \<in> {..<N}" using N by simp
  qed
  finally have "(\<Sum>m<N. data ! ((m + h) mod N) * exp (- 2 * of_real pi * \<i> * of_nat m * of_nat k / of_nat N))
                  = (\<Sum>m<N. data ! m * W ((int m - int h) * (int j - int h)))" .
  then show ?thesis
    using fourier_nth [OF j, of dt]
    unfolding N_def [symmetric] h_def [symmetric] k_def [symmetric] W_def
    by simp
qed

text \<open>
  C5. For a time grid of at least two points with spacing \<open>dt = t[1] - t[0] \<noteq> 0\<close> and a
  signal of the same length: the spectrum is \<open>dt / sqrt (2 \<pi>)\<close> times the shifted
  discrete Fourier transform of the inversely shifted (weighted, windowed) signal; entry
  \<open>j\<close> of the frequencies is \<open>(j - N div 2) / (N dt)\<close>, so that frequency zero sits at
  the centre \<open>N div 2\<close>; and the intensity is \<open>1 / (3 * 137.036^3)\<close> times the squared
  frequency times the squared modulus of the spectrum. The two shifts put the origin
  of time and of frequency at the centre of the arrays: entry \<open>j\<close> of the transform is
  \<open>dt / sqrt (2 \<pi>)\<close> times the sum of \<open>data[m] exp (- 2 \<pi> \<i> (m - N div 2) (j - N div 2) / N)\<close>.
\<close>

theorem spectrum_and_emission_intensity:
  assumes t2: "2 \<le> length t" and lI: "length I_exact = length t"
      and lg: "length gaussian_envelope = length t" and dt0: "t ! 1 \<noteq> t ! 0"
  shows "\<exists>freq Iw intensity.
           write_current_emission kweight t I_exact gaussian_envelope = Some (freq, Iw, intensity)
           \<and> Iw = fourier (t ! 1 - t ! 0)
                    (map2 (\<lambda>c g. of_real kweight * c * of_real g) I_exact gaussian_envelope)
           \<and> fourier dt data
               = map ((*) (of_real (dt / sqrt (2 * pi)))) (fftshift (fft (ifftshift data)))
           \<and> (\<forall>j<length data.
                 fourier dt data ! j =
                   of_real (dt / sqrt (2 * pi))
                   * (\<Sum>m<length data.
                        data ! ((m + length data div 2) mod length data)
                        * exp (- 2 * of_real pi * \<i> * of_nat m
                               * of_nat ((j + (length data - length data div 2)) mod length data)
                               / of_nat (length data))))
           \<and> (\<forall>j<length data.
                 fourier dt data ! j =
                   of_real (dt / sqrt (2 * pi))
                   * (\<Sum>m<length data.
                        data ! m
                        * exp (- 2 * of_real pi * \<i>
                               * of_int ((int m - int (length data div 2))
                                         * (int j - int (length data div 2)))
                               / of_nat (length data))))
           \<and> length freq = length t \<and> length Iw = length t \<and> length intensity = length t
           \<and> freq ! (length t div 2) = 0
           \<and> (\<forall>j<length t.
                 freq ! j = (real j - real (length t div 2)) / (real (length t) * (t ! 1 - t ! 0))
                 \<and> intensity ! j = 1 / (3 * 137.036 ^ 3) * (freq ! j) ^ 2 * (cmod (Iw ! j)) ^ 2)"
proof -
  define N where "N = length t"
  define dt_out where "dt_out = t ! 1 - t ! 0"
  define freq where "freq = fftshift (fftfreq N dt_out)"
  define windowed where
    "windowed = map2 (\<lambda>c g. c * of_real g) (map ((*) (of_real kweight)) I_exact) gaussian_envelope"
  define Iw where "Iw = fourier dt_out windowed"
  define intensity where "intensity = map2 (\<lambda>a s. a * (cmod s) ^ 2) (map (\<lambda>f. prefac_emission * f ^ 2) freq) Iw"
  have N2: "2 \<le> N" using t2 by (simp add: N_def)
  have d0: "dt_out \<noteq> 0" using dt0 by (simp add: dt_out_def)
  have lf: "length freq = N" by (simp add: freq_def fftshift_length fftfreq_length)
  have lw: "length windowed = N" using lI lg by (simp add: windowed_def N_def)
  have lIw: "length Iw = N" by (simp add: Iw_def fourier_length lw)
  have lint: "length intensity = N" by (simp add: intensity_def lf lIw)
  have b1: "np_broadcast (\<lambda>c g. c * of_real g) (map ((*) (of_real kweight)) I_exact) gaussian_envelope
              = Some windowed"
    using lI lg by (simp add: np_broadcast_def windowed_def)
  have b2: "np_broadcast (\<lambda>a s. a * (cmod s) ^ 2) (map (\<lambda>f. prefac_emission * f ^ 2) freq) Iw
              = Some intensity"
    using lf lIw by (simp add: np_broadcast_def intensity_def)
  have run: "write_current_emission kweight t I_exact gaussian_envelope = Some (freq, Iw, intensity)"
    unfolding write_current_emission_def Let_def dt_out_def [symmetric] N_def [symmetric]
      freq_def [symmetric]
    using N2 d0 b1 b2 by (simp add: Iw_def [symmetric])
  have w: "windowed = map2 (\<lambda>c g. of_real kweight * c * of_real g) I_exact gaussian_envelope"
    unfolding windowed_def by (simp add: zip_map1 split_def)
  have fj: "freq ! j = (real j - real (N div 2)) / (real N * dt_out)" if "j < N" for j
    using that by (simp add: freq_def fftfreq_shifted_nth)
  have f0: "freq ! (N div 2) = 0" using N2 fj [of "N div 2"] by simp
  have Ij: "intensity ! j = 1 / (3 * 137.036 ^ 3) * (freq ! j) ^ 2 * (cmod (Iw ! j)) ^ 2" if "j < N" for j
    using that lf lIw by (simp add: intensity_def prefac_emission_def)
  have def: "fourier dt data = map ((*) (of_real (dt / sqrt (2 * pi)))) (fftshift (fft (ifftshift data)))"
    by (simp add: fourier_def)
  show ?thesis
    using run w def fourier_nth [of _ data dt] fourier_centred [of _ data dt] lf lIw lint f0 fj Ij
    unfolding Iw_def N_def dt_out_def
    by (intro exI [of _ freq] exI [of _ "fourier (t ! 1 - t ! 0) windowed"] exI [of _ intensity]) simp
qed

theorem spectrum_and_emission_intensity_witness:
  "\<exists>freq Iw intensity.
     write_current_emission 1 [- 1, 0, 1] [1, 2, 3] [1, 1, 1] = Some (freq, Iw, intensity)
     \<and> Iw = fourier 1 [1, 2, 3]
     \<and> freq ! 0 = - 1 / 3 \<and> freq ! 1 = 0 \<and> freq ! 2 = 1 / 3
     \<and> intensity ! 1 = 0
     \<and> intensity ! 2 = 1 / (3 * 137.036 ^ 3) * (1 / 3) ^ 2 * (cmod (Iw ! 2)) ^ 2"
proof -
  have h: "2 \<le> length [- 1, 0, 1::real]" "length [1, 2, 3::complex] = length [- 1, 0, 1::real]"
    "length [1, 1, 1::real] = length [- 1, 0, 1::real]" "[- 1, 0, 1::real] ! 1 \<noteq> [- 1, 0, 1] ! 0"
    by simp_all
  from spectrum_and_emission_intensity [OF h, of 1 1 "[]"]
  obtain freq Iw intensity where
    run: "write_current_emission 1 [- 1, 0, 1] [1, 2, 3] [1, 1, 1] = Some (freq, Iw, intensity)"
    and Iw: "Iw = fourier 1 [1, 2, 3]"
    and ent: "\<forall>j<3. freq ! j = (real j - 1) / 3
                \<and> intensity ! j = 1 / (3 * 137.036 ^ 3) * (freq ! j) ^ 2 * (cmod (Iw ! j)) ^ 2"
    by auto
  from ent [rule_format, of 0] ent [rule_format, of 1] ent [rule_format, of 2]
  have "freq ! 0 = - 1 / 3" "freq ! 1 = 0" "freq ! 2 = 1 / 3" "intensity ! 1 = 0"
    "intensity ! 2 = 1 / (3 * 137.036 ^ 3) * (1 / 3) ^ 2 * (cmod (Iw ! 2)) ^ 2"
    by simp_all
  with run Iw show ?thesis by blast
qed

end
